theory Spec2Isabelle
  imports Complex_Main "HOL-Library.Char_ord" "HOL-Library.List_Lexorder" "HOL-Library.Sublist"
begin

section \<open>JavaScript values\<close>

text \<open>
  Strings are lists of code units. All strings the pipeline compares (month keys, normalised
  payee keys, category names) are ASCII, and the string helpers below are the ASCII
  behaviour of the JavaScript methods of the same name. A JavaScript \<open>number\<close> is modelled
  by an exact rational: every finite double is a rational, and the rounding of the
  arithmetic operations is abstracted. Integer-valued numbers (days, counts, table cells)
  are \<open>int\<close> or \<open>nat\<close>.
\<close>

definition toLowerCaseChar :: "char \<Rightarrow> char" where
  "toLowerCaseChar c =
     (if CHR ''A'' \<le> c \<and> c \<le> CHR ''Z'' then char_of (of_char c + (32::nat)) else c)"

definition toLowerCase :: "string \<Rightarrow> string" where
  "toLowerCase s = map toLowerCaseChar s"

definition isWhitespace :: "char \<Rightarrow> bool" where
  "isWhitespace c = (c \<in> {CHR 0x09, CHR 0x0A, CHR 0x0B, CHR 0x0C, CHR 0x0D, CHR '' ''})"

definition trim :: "string \<Rightarrow> string" where
  "trim s = rev (dropWhile isWhitespace (rev (dropWhile isWhitespace s)))"

text \<open>\<open>s.includes(p)\<close> (named \<open>strIncludes\<close> here): \<open>p\<close> occurs in \<open>s\<close> as a contiguous substring.\<close>

fun strIncludes :: "string \<Rightarrow> string \<Rightarrow> bool" where
  "strIncludes [] p = (p = [])"
| "strIncludes (c # cs) p = (prefix p (c # cs) \<or> strIncludes cs p)"

text \<open>\<open>s.split(sep)\<close> for a one-character separator.\<close>

fun split :: "char \<Rightarrow> string \<Rightarrow> string list" where
  "split sep [] = [[]]"
| "split sep (c # cs) =
     (if c = sep then [] # split sep cs
      else (case split sep cs of [] \<Rightarrow> [[c]] | p # ps \<Rightarrow> (c # p) # ps))"

text \<open>\<open>s.replace(/[P]+/g, " ")\<close>: every maximal run of characters in the class \<open>P\<close>
  becomes one space.\<close>

function replaceRuns :: "(char \<Rightarrow> bool) \<Rightarrow> string \<Rightarrow> string" where
  "replaceRuns P [] = []"
| "replaceRuns P (c # cs) =
     (if P c then CHR '' '' # replaceRuns P (dropWhile P cs) else c # replaceRuns P cs)"
  by pat_completeness auto
termination
  by (relation "measure (\<lambda>(P, s). length s)")
     (auto simp: le_imp_less_Suc length_dropWhile_le)

text \<open>\<open>String(n)\<close> for an integer-valued number, and \<open>padStart\<close>.\<close>

definition digitChar :: "nat \<Rightarrow> char" where
  "digitChar d = char_of (48 + d)"

fun natToString :: "nat \<Rightarrow> string" where
  "natToString n =
     (if n < 10 then [digitChar n] else natToString (n div 10) @ [digitChar (n mod 10)])"

definition intToString :: "int \<Rightarrow> string" where
  "intToString i = (if i < 0 then CHR ''-'' # natToString (nat (- i)) else natToString (nat i))"

definition padStart :: "nat \<Rightarrow> char \<Rightarrow> string \<Rightarrow> string" where
  "padStart n c s = replicate (n - length s) c @ s"

text \<open>\<open>[...new Set(xs)]\<close>: the distinct elements in order of first occurrence.\<close>

definition setAdd :: "'a list \<Rightarrow> 'a \<Rightarrow> 'a list" where
  "setAdd acc x = (if x \<in> set acc then acc else acc @ [x])"

definition newSet :: "'a list \<Rightarrow> 'a list" where
  "newSet xs = fold (\<lambda>x acc. setAdd acc x) xs []"

text \<open>\<open>Math.round\<close> rounds half towards plus infinity.\<close>

definition Math_round :: "rat \<Rightarrow> int" where
  "Math_round x = \<lfloor>x + 1 / 2\<rfloor>"

text \<open>\<open>x || d\<close> on an optional string: a missing or empty string gives the default.\<close>

definition orDefault :: "string option \<Rightarrow> string \<Rightarrow> string" where
  "orDefault x d = (case x of None \<Rightarrow> d | Some s \<Rightarrow> if s = [] then d else s)"

section \<open>Data model\<close>

text \<open>
  A \<open>Date\<close> object, read through the four accessors the code calls. A regular expression
  object is its source and its flags. The field \<open>id\<close> of the source is \<open>txId\<close> here, and
  \<open>notes\<close> is \<open>txNotes\<close>; the fields of \<open>Rule\<close> carry the prefix \<open>rule\<close>.
\<close>

record JsDate =
  getTime :: int
  getFullYear :: int
  getMonth :: int
  getDate :: int

record RegExp =
  source :: string
  flags :: string

record RawRule =
  raw_id :: string
  raw_pattern :: string
  raw_category :: string
  raw_group :: string
  is_bill :: bool
  raw_confidence :: rat

record Rule =
  ruleId :: string
  rulePattern :: RegExp
  ruleCategory :: string
  ruleGroup :: string
  ruleIsBill :: bool
  ruleConfidence :: rat

record TransactionRow =
  txId :: string
  name :: string
  monzoCategory :: string
  payeeNormalized :: string
  categoryFinal :: string
  categoryGroup :: string
  isBillRule :: bool
  confidenceScore :: rat
  confidenceReason :: string
  ruleIdApplied :: string
  date :: JsDate
  monthKey :: string
  day :: int
  type :: string
  amount :: rat
  amountAbs :: rat
  direction :: string
  txNotes :: string
  accountLabel :: string
  sourceFile :: string
  isSpend :: bool
  isInternalTransfer :: bool
  isBillCandidate :: bool
  billStatus :: string
  requiredAmountExact :: rat
  typicalDay :: "int option"

record RawCsvRow =
  csvTransactionID :: "string option"
  csvDate :: "string option"
  csvName :: "string option"
  csvType :: "string option"
  csvAmount :: "string option"
  csvCategory :: "string option"
  csvNotes :: "string option"

record CsvContent =
  content :: string
  fileName :: string

record ExclusionRules =
  internal_transfer_types :: "string list option"
  internal_transfer_name_patterns :: "string list option"
  exclude_zero_amount :: "bool option"

text \<open>
  A thrown value, by its constructor; an \<open>Error\<close> with its message, the messages of a
  \<open>TypeError\<close> and of a \<open>SyntaxError\<close> being the engine's. A function that can throw
  returns \<open>JsError + 'a\<close>, with \<open>Inl\<close> the thrown value.
\<close>

datatype JsError = Error string | TypeError | SyntaxError

text \<open>
  The runtime, the libraries and the files the code calls or reads, as parameters: the
  regular-expression engine (\<open>pattern.test\<close>, and whether \<open>new RegExp\<close> accepts a pattern
  with given flags or throws a \<open>SyntaxError\<close>), the CSV parser of \<open>csv-parse/sync\<close>,
  \<open>parseInt\<close> and \<open>parseFloat\<close> (\<open>None\<close> is NaN), the \<open>Date\<close> constructor on year, month
  index and day (\<open>None\<close> is an invalid date), the generated identifier of a row without
  one, by file index and row index, the two functions that read and parse a
  configuration file, \<open>loadExclusionRules\<close> and \<open>loadCategoryRules\<close>, each by its outcome
  (the parsed value, taken to have the declared type, or the thrown error), and the value
  of the module variable \<open>_cachedRules\<close> when the run starts (\<open>None\<close> is \<open>null\<close>).
\<close>

record JsEnv =
  regexp_test :: "RegExp \<Rightarrow> string \<Rightarrow> bool"
  regexp_compiles :: "string \<Rightarrow> string \<Rightarrow> bool"
  csv_parse :: "string \<Rightarrow> JsError + RawCsvRow list"
  parseInt :: "string \<Rightarrow> int option"
  parseFloat :: "string \<Rightarrow> rat option"
  newDate :: "int \<Rightarrow> int \<Rightarrow> int \<Rightarrow> JsDate option"
  genId :: "nat \<Rightarrow> nat \<Rightarrow> string"
  loadExclusionRules :: "JsError + ExclusionRules"
  loadCategoryRules :: "JsError + RawRule list"
  cachedRules :: "RawRule list option"

section \<open>Categorizer\<close>

text \<open>
  \<open>matchRule\<close>, \<open>categorizeRow\<close> and \<open>categorize\<close> take the rule configuration as
  \<open>loadRules\<close> returned it, in its order; the call of \<open>loadRules\<close> that can throw is made
  by the pipeline (section Pipeline). A rule's pattern is compiled with the flag \<open>i\<close>, and
  matching is the engine's \<open>test\<close>.

  \<open>FALLBACK_CATEGORY_MAP\<close> is a plain object, read with \<open>FALLBACK_CATEGORY_MAP[key]\<close>: a
  key of the table gives its entry, a property name that a plain object inherits from
  \<open>Object.prototype\<close> gives that inherited member (a function or an object, so a truthy
  value that is not iterable), and any other key gives \<open>undefined\<close>.
\<close>

definition objectPrototypeKeys :: "string list" where
  "objectPrototypeKeys =
     [''constructor'', ''hasOwnProperty'', ''isPrototypeOf'', ''propertyIsEnumerable'',
      ''toLocaleString'', ''toString'', ''valueOf'', ''__proto__'', ''__defineGetter__'',
      ''__defineSetter__'', ''__lookupGetter__'', ''__lookupSetter__'']"

datatype FallbackLookup = Entry "string \<times> string \<times> bool \<times> rat" | Inherited | Undefined

definition FALLBACK_CATEGORY_MAP :: "string \<Rightarrow> FallbackLookup" where
  "FALLBACK_CATEGORY_MAP key =
     (case map_of
        [(''Groceries'', (''Groceries (non-Spar)'', ''variable'', False, 55 / 100)),
         (''Entertainment'', (''Entertainment & Activities'', ''variable'', False, 55 / 100)),
         (''Transport'', (''Transport'', ''variable'', False, 55 / 100)),
         (''Shopping'', (''Shopping (general)'', ''variable'', False, 55 / 100)),
         (''Finances'', (''Debt Repayments / Finance Plans'', ''required_bill'', True, 5 / 10)),
         (''General'', (''Other - General'', ''variable'', False, 45 / 100))] key of
        Some entry \<Rightarrow> Entry entry
      | None \<Rightarrow> if key \<in> set objectPrototypeKeys then Inherited else Undefined)"

definition isAllowedChar :: "char \<Rightarrow> bool" where
  "isAllowedChar c =
     ((CHR ''a'' \<le> c \<and> c \<le> CHR ''z'') \<or> (CHR ''0'' \<le> c \<and> c \<le> CHR ''9'')
      \<or> c = CHR ''+'' \<or> c = CHR ''&'' \<or> c = CHR '' '')"

definition normalizePayee :: "string \<Rightarrow> string" where
  "normalizePayee v =
     (let text = toLowerCase (trim v);
          text = replaceRuns (\<lambda>c. \<not> isAllowedChar c) text
      in trim (replaceRuns isWhitespace text))"

definition loadRules :: "RawRule list \<Rightarrow> Rule list" where
  "loadRules cfg = map (\<lambda>raw.
     \<lparr>ruleId = raw_id raw,
      rulePattern = \<lparr>source = raw_pattern raw, flags = ''i''\<rparr>,
      ruleCategory = raw_category raw,
      ruleGroup = raw_group raw,
      ruleIsBill = is_bill raw,
      ruleConfidence = raw_confidence raw\<rparr>) cfg"

fun matchLoop :: "JsEnv \<Rightarrow> Rule list \<Rightarrow> string \<Rightarrow> Rule option" where
  "matchLoop env [] payeeNorm = None"
| "matchLoop env (rule # rules) payeeNorm =
     (if regexp_test env (rulePattern rule) payeeNorm then Some rule
      else matchLoop env rules payeeNorm)"

definition matchRule :: "JsEnv \<Rightarrow> RawRule list \<Rightarrow> string \<Rightarrow> Rule option" where
  "matchRule env cfg payeeNorm = matchLoop env (loadRules cfg) payeeNorm"

text \<open>The table \<open>dp\<close> of \<open>sequenceMatcherRatio\<close>, filled row by row, cell by cell.\<close>

definition dpCell :: "string \<Rightarrow> string \<Rightarrow> nat \<Rightarrow> nat \<Rightarrow> nat list list \<Rightarrow> nat list list" where
  "dpCell shorter longer i j dp =
     dp[i := (dp ! i)[j :=
       (if shorter ! (i - 1) = longer ! (j - 1) then dp ! (i - 1) ! (j - 1) + 1
        else max (dp ! (i - 1) ! j) (dp ! i ! (j - 1)))]]"

definition dpRow :: "string \<Rightarrow> string \<Rightarrow> nat \<Rightarrow> nat list list \<Rightarrow> nat list list" where
  "dpRow shorter longer i dp =
     fold (\<lambda>j d. dpCell shorter longer i j d) [1..<Suc (length longer)] dp"

definition dpTable :: "string \<Rightarrow> string \<Rightarrow> nat list list" where
  "dpTable shorter longer =
     fold (\<lambda>i d. dpRow shorter longer i d) [1..<Suc (length shorter)]
       (replicate (Suc (length shorter)) (replicate (Suc (length longer)) 0))"

definition sequenceMatcherRatio :: "string \<Rightarrow> string \<Rightarrow> rat" where
  "sequenceMatcherRatio a b =
     (if a = b then 1
      else if a = [] \<or> b = [] then 0
      else
        let longer = (if length a > length b then a else b);
            shorter = (if length a > length b then b else a)
        in if length longer = 0 then 1
           else
             let m = length shorter;
                 n = length longer;
                 dp = dpTable shorter longer;
                 lcsLength = dp ! m ! n
             in (2 * of_nat lcsLength) / of_nat (m + n))"

text \<open>
  A loop over a list whose body can throw: the results in order, or the first thrown
  value.
\<close>

fun mapResult :: "('a \<Rightarrow> 'e + 'b) \<Rightarrow> 'a list \<Rightarrow> 'e + 'b list" where
  "mapResult f [] = Inr []"
| "mapResult f (x # xs) =
     (case f x of
        Inl err \<Rightarrow> Inl err
      | Inr y \<Rightarrow> (case mapResult f xs of Inl err \<Rightarrow> Inl err | Inr ys \<Rightarrow> Inr (y # ys)))"

text \<open>
  The body of the first loop of \<open>categorize\<close>. With no matching rule and a provider
  category that names an inherited member, \<open>fallback\<close> is truthy and the array
  destructuring \<open>const [category, group, isBill, confidence] = fallback\<close> throws a
  \<open>TypeError\<close>.
\<close>

definition categorizeRow :: "JsEnv \<Rightarrow> RawRule list \<Rightarrow> TransactionRow \<Rightarrow> JsError + TransactionRow" where
  "categorizeRow env cfg row0 =
     (let row = row0\<lparr>payeeNormalized := normalizePayee (name row0),
                     categoryFinal := ''Unmapped - Needs Review'',
                     categoryGroup := ''variable'',
                     isBillRule := False,
                     confidenceScore := 0,
                     confidenceReason := ''none'',
                     ruleIdApplied := []\<rparr>
      in case matchRule env cfg (payeeNormalized row) of
           Some rule \<Rightarrow>
             Inr (row\<lparr>categoryFinal := ruleCategory rule,
                      categoryGroup := ruleGroup rule,
                      isBillRule := ruleIsBill rule,
                      confidenceScore := ruleConfidence rule,
                      confidenceReason := ''rule'',
                      ruleIdApplied := ruleId rule\<rparr>)
         | None \<Rightarrow>
             (case FALLBACK_CATEGORY_MAP (monzoCategory row) of
                Entry (cat, grp, isBill, conf) \<Rightarrow>
                  Inr (row\<lparr>categoryFinal := cat,
                           categoryGroup := grp,
                           isBillRule := isBill,
                           confidenceScore := conf,
                           confidenceReason := ''monzo_fallback'',
                           ruleIdApplied := ''fallback''\<rparr>)
              | Inherited \<Rightarrow> Inl TypeError
              | Undefined \<Rightarrow> Inr row))"

text \<open>\<open>knownMap\<close> is a \<open>Map\<close>, iterated in insertion order: an association list.\<close>

type_synonym KnownEntry = "string \<times> string \<times> bool"

definition knownStep :: "TransactionRow \<Rightarrow> (string \<times> KnownEntry) list \<Rightarrow> (string \<times> KnownEntry) list" where
  "knownStep row km =
     (if confidenceScore row \<ge> 9 / 10 \<and> payeeNormalized row \<noteq> [] then
        (if map_of km (payeeNormalized row) = None then
           km @ [(payeeNormalized row, (categoryFinal row, categoryGroup row, isBillRule row))]
         else km)
      else km)"

definition buildKnownMap :: "TransactionRow list \<Rightarrow> (string \<times> KnownEntry) list" where
  "buildKnownMap rows = fold knownStep rows []"

definition bestStep :: "string \<Rightarrow> string \<Rightarrow> string option \<times> rat \<Rightarrow> string option \<times> rat" where
  "bestStep payee candidate best =
     (let score = sequenceMatcherRatio payee candidate
      in if score > snd best then (Some candidate, score) else best)"

definition bestMatch :: "string \<Rightarrow> string list \<Rightarrow> string option \<times> rat" where
  "bestMatch payee knownKeys = fold (bestStep payee) knownKeys (None, 0)"

definition fuzzyRow :: "(string \<times> KnownEntry) list \<Rightarrow> TransactionRow \<Rightarrow> TransactionRow" where
  "fuzzyRow km row =
     (if confidenceScore row \<ge> 7 / 10 \<or> payeeNormalized row = [] then row
      else
        case bestMatch (payeeNormalized row) (map fst km) of
          (None, bestScore) \<Rightarrow> row
        | (Some bestKey, bestScore) \<Rightarrow>
            (if bestKey \<noteq> [] \<and> bestScore \<ge> 88 / 100 then
               (case map_of km bestKey of
                  None \<Rightarrow> row
                | Some (cat, grp, isBill) \<Rightarrow>
                    row\<lparr>categoryFinal := cat,
                        categoryGroup := grp,
                        isBillRule := isBill,
                        confidenceScore := min (85 / 100) (max (7 / 10) bestScore),
                        confidenceReason := ''fuzzy_payee'',
                        ruleIdApplied := ''fuzzy:'' @ bestKey\<rparr>)
             else row))"

definition categorize :: "JsEnv \<Rightarrow> RawRule list \<Rightarrow> TransactionRow list \<Rightarrow> JsError + TransactionRow list" where
  "categorize env cfg rows =
     (case mapResult (categorizeRow env cfg) rows of
        Inl err \<Rightarrow> Inl err
      | Inr rows1 \<Rightarrow>
          Inr (let knownMap = buildKnownMap rows1
               in if length knownMap > 0 then map (fuzzyRow knownMap) rows1 else rows1))"

definition applyPayeeOverrides ::
  "TransactionRow list \<Rightarrow> (string \<rightharpoonup> string) \<Rightarrow> TransactionRow list" where
  "applyPayeeOverrides rows overrides = map (\<lambda>row.
     case overrides (payeeNormalized row) of
       None \<Rightarrow> row
     | Some override \<Rightarrow>
         (if override \<noteq> [] then
            row\<lparr>categoryFinal := override,
                confidenceScore := 1,
                confidenceReason := ''user_override'',
                ruleIdApplied := ''payee_override''\<rparr>
          else row)) rows"

section \<open>Pipeline\<close>

definition DIRECT_DEBIT_TYPES :: "string list" where
  "DIRECT_DEBIT_TYPES = [''Direct Debit'', ''Faster payment'', ''Bacs (Direct Credit)'']"

definition parseDateDDMMYYYY :: "JsEnv \<Rightarrow> string \<Rightarrow> JsDate option" where
  "parseDateDDMMYYYY env dateStr =
     (case split CHR ''/'' dateStr of
        [dd, mm, yyyy] \<Rightarrow>
          (case (parseInt env yyyy, parseInt env mm, parseInt env dd) of
             (Some y, Some m, Some d) \<Rightarrow> newDate env y (m - 1) d
           | _ \<Rightarrow> None)
      | _ \<Rightarrow> None)"

text \<open>One raw row of file \<open>idx\<close>, at position \<open>k\<close> of that file: \<open>None\<close> is the
  \<open>continue\<close> of a row whose date does not parse.\<close>

definition parseRawRow :: "JsEnv \<Rightarrow> nat \<Rightarrow> string \<Rightarrow> nat \<Rightarrow> RawCsvRow \<Rightarrow> TransactionRow option" where
  "parseRawRow env idx fname k raw =
     (let dateStr = orDefault (csvDate raw) []
      in case parseDateDDMMYYYY env dateStr of
           None \<Rightarrow> None
         | Some d \<Rightarrow>
             (let amt = (case parseFloat env (orDefault (csvAmount raw) ''0'') of
                           None \<Rightarrow> 0 | Some v \<Rightarrow> v);
                  txid = (case csvTransactionID raw of
                            None \<Rightarrow> genId env idx k
                          | Some s \<Rightarrow> if s = [] then genId env idx k else s)
              in Some \<lparr>txId = txid,
                       name = orDefault (csvName raw) [],
                       monzoCategory = orDefault (csvCategory raw) [],
                       payeeNormalized = [],
                       categoryFinal = [],
                       categoryGroup = [],
                       isBillRule = False,
                       confidenceScore = 0,
                       confidenceReason = [],
                       ruleIdApplied = [],
                       date = d,
                       monthKey = intToString (getFullYear d) @ ''-''
                                  @ padStart 2 CHR ''0'' (intToString (getMonth d + 1)),
                       day = getDate d,
                       type = orDefault (csvType raw) [],
                       amount = amt,
                       amountAbs = \<bar>amt\<bar>,
                       direction = (if amt < 0 then ''outflow'' else ''inflow''),
                       txNotes = orDefault (csvNotes raw) [],
                       accountLabel = (if idx = 0 then ''Personal'' else ''Joint''),
                       sourceFile = fname,
                       isSpend = False,
                       isInternalTransfer = False,
                       isBillCandidate = False,
                       billStatus = ''not_bill'',
                       requiredAmountExact = 0,
                       typicalDay = None\<rparr>))"

fun parseRawRows :: "JsEnv \<Rightarrow> nat \<Rightarrow> string \<Rightarrow> nat \<Rightarrow> RawCsvRow list \<Rightarrow> TransactionRow list" where
  "parseRawRows env idx fname k [] = []"
| "parseRawRows env idx fname k (raw # raws) =
     (case parseRawRow env idx fname k raw of
        None \<Rightarrow> parseRawRows env idx fname (Suc k) raws
      | Some row \<Rightarrow> row # parseRawRows env idx fname (Suc k) raws)"

fun parseFiles :: "JsEnv \<Rightarrow> nat \<Rightarrow> CsvContent list \<Rightarrow> TransactionRow list \<Rightarrow> JsError + TransactionRow list" where
  "parseFiles env idx [] allRows = Inr allRows"
| "parseFiles env idx (f # fs) allRows =
     (case csv_parse env (content f) of
        Inl err \<Rightarrow> Inl err
      | Inr raws \<Rightarrow> parseFiles env (Suc idx) fs (allRows @ parseRawRows env idx (fileName f) 0 raws))"

definition parseMonzoCsvContents :: "JsEnv \<Rightarrow> CsvContent list \<Rightarrow> JsError + (TransactionRow list \<times> nat)" where
  "parseMonzoCsvContents env csvContents =
     (if length csvContents = 0 then Inl (Error ''No CSV files provided'')
      else case parseFiles env 0 csvContents [] of
             Inl err \<Rightarrow> Inl err
           | Inr allRows \<Rightarrow> Inr (allRows, length allRows))"

definition applyExclusions :: "ExclusionRules \<Rightarrow> TransactionRow list \<Rightarrow> TransactionRow list" where
  "applyExclusions exclusionRules rows =
     (let patterns = map toLowerCase
            (case internal_transfer_name_patterns exclusionRules of None \<Rightarrow> [] | Some ps \<Rightarrow> ps);
          transferTypes =
            (case internal_transfer_types exclusionRules of None \<Rightarrow> [] | Some ts \<Rightarrow> ts);
          excludeZero = (exclude_zero_amount exclusionRules \<noteq> Some False);
          result = (if excludeZero then filter (\<lambda>r. amount r \<noteq> 0) rows else rows)
      in map (\<lambda>row.
           let isInternal =
                 (type row \<in> set transferTypes
                  \<or> list_ex (\<lambda>pattern. strIncludes (toLowerCase (name row)) pattern) patterns)
           in row\<lparr>isInternalTransfer := isInternal,
                  isSpend := (amount row < 0 \<and> \<not> isInternal)\<rparr>) result)"

text \<open>\<open>payeeStats\<close>: per payee, the set of months seen and the transaction count.\<close>

definition statsStep ::
  "TransactionRow \<Rightarrow> (string \<rightharpoonup> string list \<times> nat) \<Rightarrow> (string \<rightharpoonup> string list \<times> nat)" where
  "statsStep row stats =
     (let payee = payeeNormalized row;
          st = (case stats payee of None \<Rightarrow> ([], 0) | Some s \<Rightarrow> s)
      in stats(payee \<mapsto> (setAdd (fst st) (monthKey row), snd st + 1)))"

definition payeeStats :: "TransactionRow list \<Rightarrow> (string \<rightharpoonup> string list \<times> nat)" where
  "payeeStats spendRows = fold statsStep spendRows Map.empty"

definition markCandidate :: "(string \<rightharpoonup> string list \<times> nat) \<Rightarrow> TransactionRow \<Rightarrow> TransactionRow" where
  "markCandidate stats row =
     (let st = (case stats (payeeNormalized row) of None \<Rightarrow> ([], 0) | Some s \<Rightarrow> s);
          recurringLike = (length (fst st) \<ge> 2 \<and> snd st \<ge> 2);
          isCandidate = (isBillRule row \<or> (type row \<in> set DIRECT_DEBIT_TYPES \<and> recurringLike))
      in row\<lparr>isBillCandidate := isCandidate\<rparr>)"

definition assignStatus :: "string list \<Rightarrow> string list \<Rightarrow> TransactionRow \<Rightarrow> TransactionRow" where
  "assignStatus presentLatest seenBefore row =
     (if \<not> isBillCandidate row then row\<lparr>billStatus := ''not_bill''\<rparr>
      else
        let payee = payeeNormalized row;
            status = (if payee \<in> set presentLatest then ''active'' else ''inactive_candidate'');
            status = (if status = ''inactive_candidate'' \<and> payee \<notin> set seenBefore
                      then ''not_bill'' else status)
        in row\<lparr>billStatus := status\<rparr>)"

definition latestStep :: "string \<Rightarrow> TransactionRow \<Rightarrow> (string \<rightharpoonup> rat) \<Rightarrow> (string \<rightharpoonup> rat)" where
  "latestStep latestMonth row latestTotals =
     (if monthKey row = latestMonth then
        latestTotals(payeeNormalized row \<mapsto>
          (case latestTotals (payeeNormalized row) of None \<Rightarrow> 0 | Some v \<Rightarrow> v) + amountAbs row)
      else latestTotals)"

definition allStep :: "TransactionRow \<Rightarrow> (string \<rightharpoonup> rat \<times> nat) \<Rightarrow> (string \<rightharpoonup> rat \<times> nat)" where
  "allStep row allTotals =
     (let t = (case allTotals (payeeNormalized row) of None \<Rightarrow> (0, 0) | Some v \<Rightarrow> v)
      in allTotals(payeeNormalized row \<mapsto> (fst t + amountAbs row, snd t + 1)))"

definition assignRequired ::
  "(string \<rightharpoonup> rat) \<Rightarrow> (string \<rightharpoonup> rat \<times> nat) \<Rightarrow> TransactionRow \<Rightarrow> TransactionRow" where
  "assignRequired latestTotals allTotals row =
     (if billStatus row \<noteq> ''active'' then row\<lparr>requiredAmountExact := 0\<rparr>
      else
        row\<lparr>requiredAmountExact :=
          (case latestTotals (payeeNormalized row) of
             Some latest \<Rightarrow> latest
           | None \<Rightarrow>
               (case allTotals (payeeNormalized row) of
                  Some avg \<Rightarrow> fst avg / of_nat (snd avg)
                | None \<Rightarrow> 0))\<rparr>)"

definition applyBillStatus :: "TransactionRow list \<Rightarrow> TransactionRow list" where
  "applyBillStatus rows =
     (let spendRows = filter isSpend rows
      in if length spendRows = 0 then
           map (\<lambda>r. r\<lparr>billStatus := ''not_bill'', isBillCandidate := False,
                      requiredAmountExact := 0\<rparr>) rows
         else
           let allMonths = sort (newSet (map monthKey spendRows));
               latestMonth = last allMonths;
               stats = payeeStats spendRows;
               rows1 = map (markCandidate stats) rows;
               candidateSpend = filter (\<lambda>r. isBillCandidate r \<and> isSpend r) rows1;
               presentLatest = newSet (map payeeNormalized
                                 (filter (\<lambda>r. monthKey r = latestMonth) candidateSpend));
               seenBefore = newSet (map payeeNormalized
                              (filter (\<lambda>r. monthKey r \<noteq> latestMonth) candidateSpend));
               rows2 = map (assignStatus presentLatest seenBefore) rows1;
               activeSpend = filter (\<lambda>r. billStatus r = ''active'' \<and> isSpend r) rows2;
               latestTotals = fold (latestStep latestMonth) activeSpend Map.empty;
               allTotals = fold allStep activeSpend Map.empty
           in map (assignRequired latestTotals allTotals) rows2)"

record PipelineResult =
  transactions :: "TransactionRow list"
  rawCount :: nat
  spendCount :: nat
  latestMonth :: string

definition daysStep :: "TransactionRow \<Rightarrow> (string \<rightharpoonup> int list) \<Rightarrow> (string \<rightharpoonup> int list)" where
  "daysStep row billPayeeDays =
     (if billStatus row = ''active'' \<and> isSpend row then
        billPayeeDays(payeeNormalized row \<mapsto>
          (case billPayeeDays (payeeNormalized row) of None \<Rightarrow> [] | Some ds \<Rightarrow> ds) @ [day row])
      else billPayeeDays)"

definition median :: "int list \<Rightarrow> int" where
  "median days0 =
     (let days = sort days0;
          mid = length days div 2
      in if length days mod 2 = 0
         then Math_round ((of_int (days ! (mid - 1)) + of_int (days ! mid)) / 2)
         else days ! mid)"

text \<open>
  The first call of \<open>loadRules\<close> in a run, by its outcome. A filled cache is returned (an
  array is truthy, also an empty one). Otherwise the rule file is read and the patterns
  are compiled in order with the flag \<open>i\<close>: an unreadable file throws, and so does the
  first pattern that \<open>new RegExp\<close> rejects. When the call returns a configuration \<open>cfg\<close>,
  the rules are \<open>loadRules cfg\<close>, and every later call of the run returns them from the
  cache.
\<close>

definition loadRulesOutcome :: "JsEnv \<Rightarrow> JsError + RawRule list" where
  "loadRulesOutcome env =
     (case cachedRules env of
        Some cfg \<Rightarrow> Inr cfg
      | None \<Rightarrow>
          (case loadCategoryRules env of
             Inl err \<Rightarrow> Inl err
           | Inr cfg \<Rightarrow>
               (case find (\<lambda>raw. \<not> regexp_compiles env (raw_pattern raw) ''i'') cfg of
                  Some raw \<Rightarrow> Inl SyntaxError
                | None \<Rightarrow> Inr cfg)))"

text \<open>
  \<open>applyExclusions\<close> reads the exclusion file in its first statement, on every batch;
  \<open>categorize\<close> reaches \<open>loadRules\<close> through \<open>matchRule\<close> in its first loop, so only on a
  non-empty batch, and before any row can throw. The pipeline makes both calls at these
  points and passes the configurations on.
\<close>

definition runPipelineShared ::
  "JsEnv \<Rightarrow> TransactionRow list \<Rightarrow> nat \<Rightarrow> (string \<rightharpoonup> string) \<Rightarrow> JsError + PipelineResult" where
  "runPipelineShared env rows rawCnt payeeOverrides =
     (case loadExclusionRules env of
        Inl err \<Rightarrow> Inl err
      | Inr exclusionRules \<Rightarrow>
          (let excluded = applyExclusions exclusionRules rows
           in case (if excluded = [] then Inr []
                    else case loadRulesOutcome env of
                           Inl err \<Rightarrow> Inl err
                         | Inr cfg \<Rightarrow> categorize env cfg excluded) of
                Inl err \<Rightarrow> Inl err
              | Inr categorized \<Rightarrow>
                  Inr (let withOverrides = applyPayeeOverrides categorized payeeOverrides;
                           withBills = applyBillStatus withOverrides;
                           billPayeeDays = fold daysStep withBills Map.empty;
                           typicalDayMap = (\<lambda>payee. map_option median (billPayeeDays payee));
                           withDays = map (\<lambda>row.
                             if billStatus row = ''active''
                             then row\<lparr>typicalDay := typicalDayMap (payeeNormalized row)\<rparr>
                             else row) withBills;
                           allMonths = sort (newSet (map monthKey withDays))
                       in \<lparr>transactions = withDays,
                           rawCount = rawCnt,
                           spendCount = length (filter isSpend withDays),
                           latestMonth = (if allMonths = [] then [] else last allMonths)\<rparr>)))"

definition runFullPipelineFromContent ::
  "JsEnv \<Rightarrow> CsvContent list \<Rightarrow> (string \<rightharpoonup> string) \<Rightarrow> JsError + PipelineResult" where
  "runFullPipelineFromContent env csvContents payeeOverrides =
     (case parseMonzoCsvContents env csvContents of
        Inl err \<Rightarrow> Inl err
      | Inr (rows, rawCnt) \<Rightarrow> runPipelineShared env rows rawCnt payeeOverrides)"

section \<open>Planner\<close>

text \<open>The timeframe \<open>"all"\<close> of the source is \<open>all_time\<close> here.\<close>

datatype Timeframe = this_month | last_3 | all_time

record VariableCategory =
  category :: string
  avgMonthly :: rat
  avgWeekly :: rat
  txCount :: nat
  thisMonthActual :: rat
  target :: rat

text \<open>\<open>Math.round(x * 100) / 100\<close>.\<close>

definition round2 :: "rat \<Rightarrow> rat" where
  "round2 x = of_int (Math_round (x * 100)) / 100"

text \<open>\<open>catGroups\<close> is a \<open>Map\<close> iterated in insertion order: an association list.\<close>

definition groupStep :: "TransactionRow \<Rightarrow> (string \<times> rat \<times> nat) list \<Rightarrow> (string \<times> rat \<times> nat) list" where
  "groupStep t catGroups =
     (let cg = (if map_of catGroups (categoryFinal t) = None
                then catGroups @ [(categoryFinal t, (0, 0))] else catGroups)
      in map (\<lambda>(k, g). if k = categoryFinal t then (k, (fst g + amountAbs t, snd g + 1))
                        else (k, g)) cg)"

definition monthStep :: "TransactionRow \<Rightarrow> (string \<rightharpoonup> rat) \<Rightarrow> (string \<rightharpoonup> rat)" where
  "monthStep t thisMonthTotals =
     thisMonthTotals(categoryFinal t \<mapsto>
       (case thisMonthTotals (categoryFinal t) of None \<Rightarrow> 0 | Some v \<Rightarrow> v) + amountAbs t)"

definition buildVariableSummary :: "TransactionRow list \<Rightarrow> Timeframe \<Rightarrow> VariableCategory list" where
  "buildVariableSummary txs timeframe =
     (let base0 = filter (\<lambda>t. isSpend t \<and> billStatus t \<noteq> ''active'' \<and> \<not> isInternalTransfer t) txs
      in if length base0 = 0 then []
         else
           let allMonths = sort (newSet (map monthKey base0));
               latestMonth = last allMonths;
               base = (case timeframe of
                         this_month \<Rightarrow> filter (\<lambda>t. monthKey t = latestMonth) base0
                       | last_3 \<Rightarrow>
                           (let keep = drop (length allMonths - 3) allMonths
                            in filter (\<lambda>t. monthKey t \<in> set keep) base0)
                       | all_time \<Rightarrow> base0)
           in case map (\<lambda>t. getTime (date t)) base of
                [] \<Rightarrow> []
              | d # ds \<Rightarrow>
                  let filteredMonths = newSet (map monthKey base);
                      monthCount = max 1 (length filteredMonths);
                      minDate = fold min ds d;
                      maxDate = fold max ds d;
                      daySpan = max 1 (of_int (maxDate - minDate) / (1000 * 60 * 60 * 24) + 1);
                      weekCount = max 1 (daySpan / 7);
                      catGroups = fold groupStep base [];
                      thisMonthTotals =
                        fold monthStep (filter (\<lambda>t. monthKey t = latestMonth) base) Map.empty;
                      results = map (\<lambda>(cat, stats).
                        let avgM = fst stats / of_nat monthCount;
                            avgW = fst stats / weekCount
                        in \<lparr>category = cat,
                            avgMonthly = round2 avgM,
                            avgWeekly = round2 avgW,
                            txCount = snd stats,
                            thisMonthActual =
                              round2 (case thisMonthTotals cat of None \<Rightarrow> 0 | Some v \<Rightarrow> v),
                            target = round2 avgW\<rparr>) catGroups
                  in sort_key (\<lambda>r. - avgMonthly r) results)"

section \<open>A concrete runtime and sample data\<close>

text \<open>
  An instance of the runtime, used to evaluate the functions on concrete inputs: dates in
  the UTC time zone (with the day and month overflow of the \<open>Date\<close> constructor), decimal
  \<open>parseInt\<close> and \<open>parseFloat\<close> on plain digit strings, literal patterns for the
  regular-expression engine (every pattern compiles), a CSV reader for unquoted
  comma-separated lines under the header
  \<open>Transaction ID,Date,Name,Type,Amount,Category,Notes\<close>, both configuration files
  readable, with the sample rules and exclusions below, and an empty rule cache.
\<close>

definition daysFromCivil :: "int \<Rightarrow> int \<Rightarrow> int \<Rightarrow> int" where
  "daysFromCivil y m d =
     (let y1 = (if m \<le> 2 then y - 1 else y);
          era = y1 div 400;
          yoe = y1 - era * 400;
          doy = (153 * (if m > 2 then m - 3 else m + 9) + 2) div 5 + d - 1;
          doe = yoe * 365 + yoe div 4 - yoe div 100 + doy
      in era * 146097 + doe - 719468)"

definition civilFromDays :: "int \<Rightarrow> int \<times> int \<times> int" where
  "civilFromDays z0 =
     (let z = z0 + 719468;
          era = z div 146097;
          doe = z - era * 146097;
          yoe = (doe - doe div 1460 + doe div 36524 - doe div 146096) div 365;
          doy = doe - (365 * yoe + yoe div 4 - yoe div 100);
          mp = (5 * doy + 2) div 153;
          d = doy - (153 * mp + 2) div 5 + 1;
          m = (if mp < 10 then mp + 3 else mp - 9);
          y = yoe + era * 400 + (if m \<le> 2 then 1 else 0)
      in (y, m, d))"

definition utcDate :: "int \<Rightarrow> int \<Rightarrow> int \<Rightarrow> JsDate option" where
  "utcDate year month dt =
     (let yr = (if 0 \<le> year \<and> year \<le> 99 then 1900 + year else year);
          ym = yr + month div 12;
          mn = month mod 12;
          dayNo = daysFromCivil ym (mn + 1) 1 + dt - 1;
          t = dayNo * 86400000
      in if \<bar>t\<bar> > 8640000000000000 then None
         else (case civilFromDays dayNo of
                 (y, m, d) \<Rightarrow> Some \<lparr>getTime = t, getFullYear = y, getMonth = m - 1, getDate = d\<rparr>))"

definition isDigit :: "char \<Rightarrow> bool" where
  "isDigit c = (CHR ''0'' \<le> c \<and> c \<le> CHR ''9'')"

definition digitsValue :: "string \<Rightarrow> nat" where
  "digitsValue s = foldl (\<lambda>n c. 10 * n + (of_char c - 48)) 0 s"

definition decimalInt :: "string \<Rightarrow> int option" where
  "decimalInt s =
     (if s \<noteq> [] \<and> list_all isDigit s then Some (int (digitsValue s))
      else case s of
             c # ds \<Rightarrow> (if c = CHR ''-'' \<and> ds \<noteq> [] \<and> list_all isDigit ds
                        then Some (- int (digitsValue ds)) else None)
           | [] \<Rightarrow> None)"

definition decimalNumber :: "string \<Rightarrow> rat option" where
  "decimalNumber s =
     (let neg = (s \<noteq> [] \<and> hd s = CHR ''-'');
          body = (if neg then tl s else s);
          sgn = (if neg then - 1 else 1)
      in case split CHR ''.'' body of
           [a] \<Rightarrow> (if a \<noteq> [] \<and> list_all isDigit a
                    then Some (sgn * of_nat (digitsValue a)) else None)
         | [a, b] \<Rightarrow> (if a \<noteq> [] \<and> list_all isDigit a \<and> list_all isDigit b
                       then Some (sgn * (of_nat (digitsValue a)
                                         + of_nat (digitsValue b) / 10 ^ length b))
                       else None)
         | _ \<Rightarrow> None)"

definition nthOpt :: "'a list \<Rightarrow> nat \<Rightarrow> 'a option" where
  "nthOpt xs i = (if i < length xs then Some (xs ! i) else None)"

definition csvLine :: "string \<Rightarrow> RawCsvRow" where
  "csvLine l =
     (let fs = split CHR '','' l
      in \<lparr>csvTransactionID = nthOpt fs 0, csvDate = nthOpt fs 1, csvName = nthOpt fs 2,
          csvType = nthOpt fs 3, csvAmount = nthOpt fs 4, csvCategory = nthOpt fs 5,
          csvNotes = nthOpt fs 6\<rparr>)"

definition plainCsv :: "string \<Rightarrow> JsError + RawCsvRow list" where
  "plainCsv s =
     (if CHR 0x22 \<in> set s then Inl (Error ''Quote Not Closed'')
      else Inr (map csvLine (filter (\<lambda>l. l \<noteq> []) (tl (split CHR 0x0A s)))))"

definition exampleRules :: "RawRule list" where
  "exampleRules =
     [\<lparr>raw_id = ''r_netflix'', raw_pattern = ''netflix'', raw_category = ''Streaming'',
       raw_group = ''required_bill'', is_bill = True, raw_confidence = 95 / 100\<rparr>,
      \<lparr>raw_id = ''r_net'', raw_pattern = ''net'', raw_category = ''Internet'',
       raw_group = ''required_bill'', is_bill = True, raw_confidence = 9 / 10\<rparr>,
      \<lparr>raw_id = ''r_tesco'', raw_pattern = ''tesco stores 1234'', raw_category = ''Groceries'',
       raw_group = ''variable'', is_bill = False, raw_confidence = 95 / 100\<rparr>]"

definition exampleExclusions :: ExclusionRules where
  "exampleExclusions =
     \<lparr>internal_transfer_types = Some [''Pot transfer''],
      internal_transfer_name_patterns = Some [''Savings Pot''],
      exclude_zero_amount = Some True\<rparr>"

definition exampleEnv :: JsEnv where
  "exampleEnv =
     \<lparr>regexp_test = (\<lambda>re s.
         if flags re = ''i'' then strIncludes (toLowerCase s) (toLowerCase (source re))
         else strIncludes s (source re)),
      regexp_compiles = (\<lambda>src fl. True),
      csv_parse = plainCsv,
      parseInt = decimalInt,
      parseFloat = decimalNumber,
      newDate = utcDate,
      genId = (\<lambda>i k. ''gen_'' @ natToString i @ ''_'' @ natToString k),
      loadExclusionRules = Inr exampleExclusions,
      loadCategoryRules = Inr exampleRules,
      cachedRules = None\<rparr>"

definition blankRow :: TransactionRow where
  "blankRow =
     \<lparr>txId = ''tx'', name = [], monzoCategory = [], payeeNormalized = [],
      categoryFinal = [], categoryGroup = [], isBillRule = False, confidenceScore = 0,
      confidenceReason = [], ruleIdApplied = [],
      date = \<lparr>getTime = 0, getFullYear = 1970, getMonth = 0, getDate = 1\<rparr>,
      monthKey = ''1970-01'', day = 1, type = [], amount = 0, amountAbs = 0,
      direction = ''inflow'', txNotes = [], accountLabel = ''Personal'', sourceFile = [],
      isSpend = False, isInternalTransfer = False, isBillCandidate = False,
      billStatus = ''not_bill'', requiredAmountExact = 0, typicalDay = None\<rparr>"

text \<open>A spend row with the given payee key, month, type, amount and bill-rule flag.\<close>

definition spendRow :: "string \<Rightarrow> string \<Rightarrow> string \<Rightarrow> rat \<Rightarrow> bool \<Rightarrow> TransactionRow" where
  "spendRow payee month ty amt bill =
     blankRow\<lparr>name := payee, payeeNormalized := payee, monthKey := month, type := ty,
              amount := - amt, amountAbs := amt, direction := ''outflow'',
              isSpend := True, isBillRule := bill\<rparr>"

text \<open>The property of one transaction that the exclusion stage establishes.\<close>

definition spendEligible :: "TransactionRow \<Rightarrow> bool" where
  "spendEligible t = (isSpend t \<longleftrightarrow> amount t < 0 \<and> \<not> isInternalTransfer t)"

definition exampleBatch :: "TransactionRow list" where
  "exampleBatch =
     [blankRow\<lparr>name := ''NETFLIX.COM'', type := ''Direct Debit'', monthKey := ''2024-01'',
               amount := - 999 / 100, amountAbs := 999 / 100, direction := ''outflow''\<rparr>,
      blankRow\<lparr>name := ''Savings Pot'', type := ''Card payment'', monthKey := ''2024-01'',
               amount := - 50, amountAbs := 50, direction := ''outflow''\<rparr>,
      blankRow\<lparr>name := ''Active card check'', monthKey := ''2024-01''\<rparr>,
      blankRow\<lparr>name := ''Employer Ltd'', type := ''Faster payment'', monthKey := ''2024-01'',
               amount := 2000, amountAbs := 2000\<rparr>]"

section \<open>Specification notions for the similarity ratio\<close>

text \<open>
  The length of a longest common subsequence, by the textbook recursion (it is shown
  below to be attained by a common subsequence and to bound every common subsequence),
  and the invariants of the table \<open>dp\<close>: its shape, the rows already filled, and the
  cells already filled in the current row.
\<close>

fun lcsLength :: "'a list \<Rightarrow> 'a list \<Rightarrow> nat" where
  "lcsLength [] ys = 0"
| "lcsLength (x # xs) [] = 0"
| "lcsLength (x # xs) (y # ys) =
     (if x = y then lcsLength xs ys + 1
      else max (lcsLength xs (y # ys)) (lcsLength (x # xs) ys))"

definition cellT :: "string \<Rightarrow> string \<Rightarrow> nat \<Rightarrow> nat \<Rightarrow> nat" where
  "cellT s l i j = lcsLength (rev (take i s)) (rev (take j l))"

definition tableShape :: "string \<Rightarrow> string \<Rightarrow> nat list list \<Rightarrow> bool" where
  "tableShape s l dp =
     (length dp = Suc (length s)
      \<and> (\<forall>i \<le> length s. length (dp ! i) = Suc (length l))
      \<and> (\<forall>i \<le> length s. dp ! i ! 0 = 0))"

definition rowsDone :: "string \<Rightarrow> string \<Rightarrow> nat \<Rightarrow> nat list list \<Rightarrow> bool" where
  "rowsDone s l k dp =
     (tableShape s l dp \<and> (\<forall>i j. i \<le> k \<and> j \<le> length l \<longrightarrow> dp ! i ! j = cellT s l i j))"

definition cellsDone :: "string \<Rightarrow> string \<Rightarrow> nat \<Rightarrow> nat \<Rightarrow> nat list list \<Rightarrow> bool" where
  "cellsDone s l i c dp =
     (tableShape s l dp
      \<and> (\<forall>i' j. i' < i \<and> j \<le> length l \<longrightarrow> dp ! i' ! j = cellT s l i' j)
      \<and> (\<forall>j \<le> c. dp ! i ! j = cellT s l i j))"

section \<open>Intermediate values of the bill-status stage\<close>

text \<open>
  The values \<open>applyBillStatus\<close> binds on a batch with a spend row, named after the
  source's variables, and the notions the claims use: the most recent month key among the
  spend rows, and a payee being recurring-like (its spend rows span at least two distinct
  months and number at least two).
\<close>

definition latestMonthOf :: "TransactionRow list \<Rightarrow> string" where
  "latestMonthOf rows = last (sort (newSet (map monthKey (filter isSpend rows))))"

definition candidateRows :: "TransactionRow list \<Rightarrow> TransactionRow list" where
  "candidateRows rows = map (markCandidate (payeeStats (filter isSpend rows))) rows"

definition presentLatestOf :: "TransactionRow list \<Rightarrow> string list" where
  "presentLatestOf rows =
     newSet (map payeeNormalized
       (filter (\<lambda>r. monthKey r = latestMonthOf rows)
          (filter (\<lambda>r. isBillCandidate r \<and> isSpend r) (candidateRows rows))))"

definition seenBeforeOf :: "TransactionRow list \<Rightarrow> string list" where
  "seenBeforeOf rows =
     newSet (map payeeNormalized
       (filter (\<lambda>r. monthKey r \<noteq> latestMonthOf rows)
          (filter (\<lambda>r. isBillCandidate r \<and> isSpend r) (candidateRows rows))))"

definition statusRows :: "TransactionRow list \<Rightarrow> TransactionRow list" where
  "statusRows rows =
     map (assignStatus (presentLatestOf rows) (seenBeforeOf rows)) (candidateRows rows)"

definition activeSpendOf :: "TransactionRow list \<Rightarrow> TransactionRow list" where
  "activeSpendOf rows = filter (\<lambda>r. billStatus r = ''active'' \<and> isSpend r) (statusRows rows)"

definition mostRecentSpendMonth :: "TransactionRow list \<Rightarrow> string" where
  "mostRecentSpendMonth rows = Max (monthKey ` {r \<in> set rows. isSpend r})"

definition recurringLike :: "TransactionRow list \<Rightarrow> string \<Rightarrow> bool" where
  "recurringLike rows p =
     (card (monthKey ` {r \<in> set rows. isSpend r \<and> payeeNormalized r = p}) \<ge> 2
      \<and> length (filter (\<lambda>r. isSpend r \<and> payeeNormalized r = p) rows) \<ge> 2)"

text \<open>
  On a batch whose candidate flags are set: the months in which payee \<open>p\<close> has a
  bill-candidate spend transaction, and the active spend rows of payee \<open>p\<close> in month \<open>m\<close>.
\<close>

definition candidateSpendMonths :: "TransactionRow list \<Rightarrow> string \<Rightarrow> string set" where
  "candidateSpendMonths out p =
     monthKey ` {r \<in> set out. payeeNormalized r = p \<and> isBillCandidate r \<and> isSpend r}"

definition activeSpendIn :: "TransactionRow list \<Rightarrow> string \<Rightarrow> string \<Rightarrow> TransactionRow list" where
  "activeSpendIn out p m =
     filter (\<lambda>r. payeeNormalized r = p \<and> billStatus r = ''active'' \<and> isSpend r
                 \<and> monthKey r = m) out"

definition mixedPayeeBatch :: "TransactionRow list" where
  "mixedPayeeBatch =
     [spendRow ''gym'' ''2024-01'' ''Direct Debit'' 30 False,
      spendRow ''gym'' ''2024-02'' ''Direct Debit'' 30 False,
      spendRow ''gym'' ''2024-02'' ''Card payment'' 12 False]"

section \<open>Notions for the variable summary\<close>

text \<open>
  The relation between the two accumulators of \<open>buildVariableSummary\<close> when both are
  folded over the same rows: every category of \<open>catGroups\<close> has its total in
  \<open>thisMonthTotals\<close>, and \<open>thisMonthTotals\<close> has no other category.
\<close>

definition totalsAgree :: "(string \<times> rat \<times> nat) list \<Rightarrow> (string \<rightharpoonup> rat) \<Rightarrow> bool" where
  "totalsAgree catGroups thisMonthTotals =
     ((\<forall>(k, g) \<in> set catGroups. thisMonthTotals k = Some (fst g))
      \<and> dom thisMonthTotals \<subseteq> fst ` set catGroups)"

definition plannerBatch :: "TransactionRow list" where
  "plannerBatch =
     [(spendRow ''tesco'' ''2024-01'' ''Card payment'' 10 False)\<lparr>categoryFinal := ''Groceries''\<rparr>,
      (spendRow ''tesco'' ''2024-02'' ''Card payment'' (20005 / 1000) False)
        \<lparr>categoryFinal := ''Groceries''\<rparr>,
      (spendRow ''tfl'' ''2024-02'' ''Card payment'' 5 False)\<lparr>categoryFinal := ''Transport''\<rparr>]"

section \<open>Notions for the parsing and categorising claims\<close>



definition pass1 :: "JsEnv \<Rightarrow> RawRule list \<Rightarrow> TransactionRow list \<Rightarrow> JsError + TransactionRow list" where
  "pass1 env cfg rows = mapResult (categorizeRow env cfg) rows"

definition csvHeader :: string where
  "csvHeader = ''Transaction ID,Date,Name,Type,Amount,Category,Notes''"



definition inheritedKeyFile :: CsvContent where
  "inheritedKeyFile =
     \<lparr>content = csvHeader @ [CHR 0x0A]
        @ ''tx1,15/01/2024,Corner Shop,Card payment,-3.50,constructor,'',
      fileName = ''inherited.csv''\<rparr>"

definition fuzzyBatch :: "TransactionRow list" where
  "fuzzyBatch =
     [blankRow\<lparr>name := ''Tesco Stores 1234''\<rparr>,
      blankRow\<lparr>name := ''Tesco Stores 1235''\<rparr>,
      blankRow\<lparr>name := ''Tesco Stores 5678''\<rparr>]"

section \<open>Rule matching\<close>

lemma matchLoop_None:
  "matchLoop env rules key = None \<longleftrightarrow> (\<forall>i < length rules. \<not> regexp_test env (rulePattern (rules ! i)) key)"
proof (induction rules)
  case Nil
  then show ?case by simp
next
  case (Cons r rules)
  show ?case
  proof (cases "regexp_test env (rulePattern r) key")
    case True
    then show ?thesis by auto
  next
    case False
    then show ?thesis using Cons.IH
      by (auto simp: less_Suc_eq_0_disj)
  qed
qed

lemma matchLoop_Some:
  "matchLoop env rules key = Some r \<longleftrightarrow>
     (\<exists>i < length rules. r = rules ! i \<and> regexp_test env (rulePattern (rules ! i)) key
        \<and> (\<forall>j < i. \<not> regexp_test env (rulePattern (rules ! j)) key))"
proof (induction rules)
  case Nil
  then show ?case by simp
next
  case (Cons x rules)
  show ?case
  proof (cases "regexp_test env (rulePattern x) key")
    case True
    have "(\<exists>i < length (x # rules). r = (x # rules) ! i \<and> regexp_test env (rulePattern ((x # rules) ! i)) key
        \<and> (\<forall>j < i. \<not> regexp_test env (rulePattern ((x # rules) ! j)) key)) \<longleftrightarrow> r = x"
    proof
      assume "\<exists>i < length (x # rules). r = (x # rules) ! i \<and> regexp_test env (rulePattern ((x # rules) ! i)) key
        \<and> (\<forall>j < i. \<not> regexp_test env (rulePattern ((x # rules) ! j)) key)"
      then obtain i where i: "r = (x # rules) ! i" "\<forall>j < i. \<not> regexp_test env (rulePattern ((x # rules) ! j)) key"
        by blast
      have "i = 0"
      proof (rule ccontr)
        assume "i \<noteq> 0"
        then have "0 < i" by simp
        with i(2) have "\<not> regexp_test env (rulePattern ((x # rules) ! 0)) key" by blast
        with True show False by simp
      qed
      with i(1) show "r = x" by simp
    next
      assume "r = x"
      with True show "\<exists>i < length (x # rules). r = (x # rules) ! i \<and> regexp_test env (rulePattern ((x # rules) ! i)) key
        \<and> (\<forall>j < i. \<not> regexp_test env (rulePattern ((x # rules) ! j)) key)"
        by (intro exI[of _ 0]) simp
    qed
    with True show ?thesis by auto
  next
    case False
    have "(\<exists>i < length (x # rules). r = (x # rules) ! i \<and> regexp_test env (rulePattern ((x # rules) ! i)) key
        \<and> (\<forall>j < i. \<not> regexp_test env (rulePattern ((x # rules) ! j)) key)) \<longleftrightarrow>
        (\<exists>i < length rules. r = rules ! i \<and> regexp_test env (rulePattern (rules ! i)) key
        \<and> (\<forall>j < i. \<not> regexp_test env (rulePattern (rules ! j)) key))" (is "?L \<longleftrightarrow> ?R")
    proof
      assume ?L
      then obtain i where i: "i < length (x # rules)" "r = (x # rules) ! i"
        "regexp_test env (rulePattern ((x # rules) ! i)) key"
        "\<forall>j < i. \<not> regexp_test env (rulePattern ((x # rules) ! j)) key" by blast
      from i(3) False have "i \<noteq> 0" by (cases i) auto
      then obtain k where k: "i = Suc k" by (cases i) auto
      have "\<forall>j < k. \<not> regexp_test env (rulePattern (rules ! j)) key"
      proof (intro allI impI)
        fix j assume "j < k"
        then have "Suc j < i" using k by simp
        with i(4) have "\<not> regexp_test env (rulePattern ((x # rules) ! Suc j)) key" by blast
        then show "\<not> regexp_test env (rulePattern (rules ! j)) key" by simp
      qed
      with i k show ?R by (intro exI[of _ k]) simp
    next
      assume ?R
      then obtain i where i: "i < length rules" "r = rules ! i"
        "regexp_test env (rulePattern (rules ! i)) key"
        "\<forall>j < i. \<not> regexp_test env (rulePattern (rules ! j)) key" by blast
      have "\<forall>j < Suc i. \<not> regexp_test env (rulePattern ((x # rules) ! j)) key"
      proof (intro allI impI)
        fix j assume "j < Suc i"
        then show "\<not> regexp_test env (rulePattern ((x # rules) ! j)) key"
          using False i(4) by (cases j) auto
      qed
      with i show ?L by (intro exI[of _ "Suc i"]) simp
    qed
    with False Cons.IH show ?thesis by simp
  qed
qed

lemma loadRules_length: "length (loadRules cfg) = length cfg"
  by (simp add: loadRules_def)

lemma loadRules_nth_pattern:
  "i < length cfg \<Longrightarrow> rulePattern (loadRules cfg ! i) = \<lparr>source = raw_pattern (cfg ! i), flags = ''i''\<rparr>"
  by (simp add: loadRules_def)

text \<open>
  Claim C8. For every normalised payee key and every ordered rule configuration,
  \<open>matchRule\<close> returns no rule exactly when no rule's pattern (compiled with the flag
  \<open>i\<close>, that is, case-insensitively) matches the key, and otherwise returns the rule at the
  first position of the supplied order whose pattern matches: no rule before it matches,
  so of two matching rules the earlier one governs.
\<close>

theorem matchRule_first_match:
  "(matchRule env cfg key = None \<longleftrightarrow>
      (\<forall>i < length cfg. \<not> regexp_test env \<lparr>source = raw_pattern (cfg ! i), flags = ''i''\<rparr> key))
   \<and> (matchRule env cfg key = Some r \<longleftrightarrow>
      (\<exists>i < length cfg. r = loadRules cfg ! i
         \<and> regexp_test env \<lparr>source = raw_pattern (cfg ! i), flags = ''i''\<rparr> key
         \<and> (\<forall>j < i. \<not> regexp_test env \<lparr>source = raw_pattern (cfg ! j), flags = ''i''\<rparr> key)))"
proof
  show "matchRule env cfg key = None \<longleftrightarrow>
      (\<forall>i < length cfg. \<not> regexp_test env \<lparr>source = raw_pattern (cfg ! i), flags = ''i''\<rparr> key)"
    unfolding matchRule_def matchLoop_None
    by (simp add: loadRules_length loadRules_nth_pattern)
next
  have "\<And>i. i < length cfg \<Longrightarrow>
      (\<forall>j < i. \<not> regexp_test env (rulePattern (loadRules cfg ! j)) key) \<longleftrightarrow>
      (\<forall>j < i. \<not> regexp_test env \<lparr>source = raw_pattern (cfg ! j), flags = ''i''\<rparr> key)"
    by (auto simp: loadRules_nth_pattern)
  then show "matchRule env cfg key = Some r \<longleftrightarrow>
      (\<exists>i < length cfg. r = loadRules cfg ! i
         \<and> regexp_test env \<lparr>source = raw_pattern (cfg ! i), flags = ''i''\<rparr> key
         \<and> (\<forall>j < i. \<not> regexp_test env \<lparr>source = raw_pattern (cfg ! j), flags = ''i''\<rparr> key))"
    unfolding matchRule_def matchLoop_Some
    by (auto simp: loadRules_length loadRules_nth_pattern)
qed

theorem matchRule_first_match_witness:
  "regexp_test exampleEnv \<lparr>source = raw_pattern (exampleRules ! 0), flags = ''i''\<rparr> ''netflix com''
   \<and> regexp_test exampleEnv \<lparr>source = raw_pattern (exampleRules ! 1), flags = ''i''\<rparr> ''netflix com''
   \<and> matchRule exampleEnv exampleRules ''netflix com'' = Some (loadRules exampleRules ! 0)
   \<and> ruleCategory (loadRules exampleRules ! 0) = ''Streaming''"
proof -
  have m0: "regexp_test exampleEnv \<lparr>source = raw_pattern (exampleRules ! 0), flags = ''i''\<rparr> ''netflix com''"
    by code_simp
  have m1: "regexp_test exampleEnv \<lparr>source = raw_pattern (exampleRules ! 1), flags = ''i''\<rparr> ''netflix com''"
    by code_simp
  have len: "0 < length exampleRules"
    by code_simp
  have cat: "ruleCategory (loadRules exampleRules ! 0) = ''Streaming''"
    by code_simp
  have "\<exists>i < length exampleRules. loadRules exampleRules ! 0 = loadRules exampleRules ! i
         \<and> regexp_test exampleEnv \<lparr>source = raw_pattern (exampleRules ! i), flags = ''i''\<rparr> ''netflix com''
         \<and> (\<forall>j < i. \<not> regexp_test exampleEnv \<lparr>source = raw_pattern (exampleRules ! j), flags = ''i''\<rparr> ''netflix com'')"
    using m0 len by (intro exI[of _ 0]) simp
  then have "matchRule exampleEnv exampleRules ''netflix com'' = Some (loadRules exampleRules ! 0)"
    using matchRule_first_match [of exampleEnv exampleRules "''netflix com''" "loadRules exampleRules ! 0"]
    by blast
  with m0 m1 cat show ?thesis by blast
qed

section \<open>Payee overrides\<close>

lemma applyPayeeOverrides_length: "length (applyPayeeOverrides rows ov) = length rows"
  by (simp add: applyPayeeOverrides_def)

text \<open>
  Claim C6, as stated, fails: a payee key that appears in the override map with the empty
  string as its category is skipped by the guard \<open>if (override)\<close>, and the row keeps its
  confidence and category.
\<close>

theorem applyPayeeOverrides_empty_override_counterexample:
  "payeeNormalized (spendRow ''acme'' ''2024-01'' ''Card'' 5 False) \<in> dom [''acme'' \<mapsto> []]
   \<and> confidenceScore (applyPayeeOverrides [spendRow ''acme'' ''2024-01'' ''Card'' 5 False]
                         [''acme'' \<mapsto> []] ! 0) \<noteq> 1
   \<and> applyPayeeOverrides [spendRow ''acme'' ''2024-01'' ''Card'' 5 False] [''acme'' \<mapsto> []]
       = [spendRow ''acme'' ''2024-01'' ''Card'' 5 False]"
  by (simp add: applyPayeeOverrides_def spendRow_def blankRow_def)

text \<open>
  Claim C6, amended. For every row whose normalised payee key is mapped by the override
  map to a non-empty category, \<open>applyPayeeOverrides\<close> overwrites \<open>categoryFinal\<close> with that
  category and sets \<open>confidenceScore\<close> to 1, \<open>confidenceReason\<close> to \<open>user_override\<close> and
  \<open>ruleIdApplied\<close> to \<open>payee_override\<close>, whatever the row held before, and changes no
  other field; a row whose key is absent from the map, or mapped to the empty string, is
  left unchanged; the batch keeps its length and order.
\<close>

theorem applyPayeeOverrides_nonempty_override:
  assumes "i < length rows"
  shows "(\<forall>c. ov (payeeNormalized (rows ! i)) = Some c \<and> c \<noteq> [] \<longrightarrow>
            applyPayeeOverrides rows ov ! i =
              (rows ! i)\<lparr>categoryFinal := c, confidenceScore := 1,
                         confidenceReason := ''user_override'',
                         ruleIdApplied := ''payee_override''\<rparr>)
         \<and> (ov (payeeNormalized (rows ! i)) = None \<or> ov (payeeNormalized (rows ! i)) = Some []
              \<longrightarrow> applyPayeeOverrides rows ov ! i = rows ! i)
         \<and> length (applyPayeeOverrides rows ov) = length rows"
  using assms by (auto simp: applyPayeeOverrides_def)

theorem applyPayeeOverrides_nonempty_override_witness:
  "(0::nat) < length [spendRow ''acme'' ''2024-01'' ''Card'' 5 False]
   \<and> [''acme'' \<mapsto> ''Groceries''] (payeeNormalized (spendRow ''acme'' ''2024-01'' ''Card'' 5 False))
       = Some ''Groceries''
   \<and> applyPayeeOverrides [spendRow ''acme'' ''2024-01'' ''Card'' 5 False]
         [''acme'' \<mapsto> ''Groceries''] ! 0
       = (spendRow ''acme'' ''2024-01'' ''Card'' 5 False)
           \<lparr>categoryFinal := ''Groceries'', confidenceScore := 1,
            confidenceReason := ''user_override'', ruleIdApplied := ''payee_override''\<rparr>"
proof -
  have k: "[''acme'' \<mapsto> ''Groceries''] (payeeNormalized (spendRow ''acme'' ''2024-01'' ''Card'' 5 False))
       = Some ''Groceries''"
    by (simp add: spendRow_def blankRow_def)
  have l: "(0::nat) < length [spendRow ''acme'' ''2024-01'' ''Card'' 5 False]"
    by simp
  from applyPayeeOverrides_nonempty_override
         [OF l, of "[''acme'' \<mapsto> ''Groceries'']"] k l
  show ?thesis by simp
qed

section \<open>Loops that can throw\<close>

lemma mapResult_length: "mapResult f xs = Inr ys \<Longrightarrow> length ys = length xs"
  by (induction xs arbitrary: ys) (auto split: sum.splits)

lemma mapResult_nth:
  "mapResult f xs = Inr ys \<Longrightarrow> i < length xs \<Longrightarrow> f (xs ! i) = Inr (ys ! i)"
proof (induction xs arbitrary: ys i)
  case Nil
  then show ?case by simp
next
  case (Cons x xs)
  then show ?case by (cases i) (auto split: sum.splits)
qed

lemma mapResult_mem:
  "mapResult f xs = Inr ys \<Longrightarrow> y \<in> set ys \<Longrightarrow> \<exists>x \<in> set xs. f x = Inr y"
  by (induction xs arbitrary: ys) (auto split: sum.splits)

lemma mapResult_returns:
  "(\<exists>ys. mapResult f xs = Inr ys) \<longleftrightarrow> (\<forall>x \<in> set xs. \<exists>y. f x = Inr y)"
proof (induction xs)
  case Nil
  then show ?case by simp
next
  case (Cons x xs)
  then show ?case by (cases "f x"; cases "mapResult f xs") auto
qed

lemma categorizeRow_returns:
  "(\<exists>r'. categorizeRow env cfg r = Inr r') \<longleftrightarrow>
     matchRule env cfg (normalizePayee (name r)) \<noteq> None
     \<or> monzoCategory r \<notin> set objectPrototypeKeys"
proof -
  have own: "\<And>e. FALLBACK_CATEGORY_MAP (monzoCategory r) = Entry e \<Longrightarrow>
      monzoCategory r \<notin> set objectPrototypeKeys"
    by (auto simp: FALLBACK_CATEGORY_MAP_def objectPrototypeKeys_def split: if_splits)
  have inh: "FALLBACK_CATEGORY_MAP (monzoCategory r) = Inherited \<Longrightarrow>
      monzoCategory r \<in> set objectPrototypeKeys"
    by (auto simp: FALLBACK_CATEGORY_MAP_def split: option.splits if_splits)
  have und: "FALLBACK_CATEGORY_MAP (monzoCategory r) = Undefined \<Longrightarrow>
      monzoCategory r \<notin> set objectPrototypeKeys"
    by (auto simp: FALLBACK_CATEGORY_MAP_def split: option.splits if_splits)
  show ?thesis
  proof (cases "matchRule env cfg (normalizePayee (name r))")
    case (Some rule)
    then show ?thesis by (simp add: categorizeRow_def Let_def)
  next
    case None
    show ?thesis
    proof (cases "FALLBACK_CATEGORY_MAP (monzoCategory r)")
      case (Entry e)
      with None own [OF Entry] show ?thesis
        by (cases e) (simp add: categorizeRow_def Let_def)
    next
      case Inherited
      with None inh show ?thesis by (simp add: categorizeRow_def Let_def)
    next
      case Undefined
      with None und show ?thesis by (simp add: categorizeRow_def Let_def)
    qed
  qed
qed

text \<open>
  \<open>categorize\<close> returns exactly on the batches in which every row either matches a rule
  or has a provider category that is not the name of an inherited member.
\<close>

lemma categorize_returns:
  "(\<exists>out. categorize env cfg rows = Inr out) \<longleftrightarrow>
     (\<forall>r \<in> set rows. matchRule env cfg (normalizePayee (name r)) \<noteq> None
                       \<or> monzoCategory r \<notin> set objectPrototypeKeys)"
proof -
  have "(\<exists>out. categorize env cfg rows = Inr out) \<longleftrightarrow>
      (\<exists>rows1. mapResult (categorizeRow env cfg) rows = Inr rows1)"
    by (auto simp: categorize_def split: sum.splits)
  then show ?thesis
    unfolding mapResult_returns categorizeRow_returns .
qed

lemma categorize_Inr:
  "categorize env cfg rows = Inr out \<longleftrightarrow>
     (\<exists>rows1. pass1 env cfg rows = Inr rows1
        \<and> out = (if buildKnownMap rows1 \<noteq> []
                 then map (fuzzyRow (buildKnownMap rows1)) rows1 else rows1))"
  by (auto simp: categorize_def pass1_def Let_def split: sum.splits)

section \<open>Spend eligibility through the stages\<close>

lemma applyExclusions_spendEligible:
  "t \<in> set (applyExclusions cfg rows) \<Longrightarrow> spendEligible t"
  by (auto simp: applyExclusions_def spendEligible_def Let_def split: if_splits)

lemma categorizeRow_keeps:
  assumes "categorizeRow env cfg r = Inr r'"
  shows "isSpend r' = isSpend r"
    and "amount r' = amount r"
    and "isInternalTransfer r' = isInternalTransfer r"
  using assms
  by (auto simp: categorizeRow_def Let_def split: option.splits prod.splits FallbackLookup.splits)

lemma fuzzyRow_keeps:
  "isSpend (fuzzyRow km r) = isSpend r"
  "amount (fuzzyRow km r) = amount r"
  "isInternalTransfer (fuzzyRow km r) = isInternalTransfer r"
  by (simp_all add: fuzzyRow_def Let_def split: option.splits prod.splits)

lemma spendEligible_cong:
  "isSpend a = isSpend b \<Longrightarrow> amount a = amount b \<Longrightarrow> isInternalTransfer a = isInternalTransfer b
   \<Longrightarrow> spendEligible a = spendEligible b"
  by (simp add: spendEligible_def)

lemma categorize_spendEligible:
  assumes "\<forall>t \<in> set rows. spendEligible t" and "categorize env cfg rows = Inr out"
  shows "\<forall>t \<in> set out. spendEligible t"
proof -
  from assms(2) obtain rows1 where p: "mapResult (categorizeRow env cfg) rows = Inr rows1"
    and out: "out = (if buildKnownMap rows1 \<noteq> []
                     then map (fuzzyRow (buildKnownMap rows1)) rows1 else rows1)"
    by (auto simp: categorize_Inr pass1_def)
  have a: "\<forall>t \<in> set rows1. spendEligible t"
  proof
    fix t assume "t \<in> set rows1"
    from mapResult_mem [OF p this] obtain r where r: "r \<in> set rows"
      "categorizeRow env cfg r = Inr t" by blast
    have "spendEligible t = spendEligible r"
      by (rule spendEligible_cong) (simp_all add: categorizeRow_keeps [OF r(2)])
    with assms(1) r(1) show "spendEligible t" by simp
  qed
  have b: "\<And>km r. spendEligible (fuzzyRow km r) = spendEligible r"
    by (rule spendEligible_cong) (simp_all add: fuzzyRow_keeps)
  show ?thesis using a by (auto simp: out b)
qed

lemma applyPayeeOverrides_spendEligible:
  assumes "\<forall>t \<in> set rows. spendEligible t"
  shows "\<forall>t \<in> set (applyPayeeOverrides rows ov). spendEligible t"
  using assms by (auto simp: applyPayeeOverrides_def spendEligible_def split: option.splits)

lemma markCandidate_keeps:
  "isSpend (markCandidate st r) = isSpend r"
  "amount (markCandidate st r) = amount r"
  "isInternalTransfer (markCandidate st r) = isInternalTransfer r"
  "payeeNormalized (markCandidate st r) = payeeNormalized r"
  "monthKey (markCandidate st r) = monthKey r"
  "amountAbs (markCandidate st r) = amountAbs r"
  by (simp_all add: markCandidate_def Let_def)

lemma assignStatus_keeps:
  "isSpend (assignStatus pl sb r) = isSpend r"
  "amount (assignStatus pl sb r) = amount r"
  "isInternalTransfer (assignStatus pl sb r) = isInternalTransfer r"
  "payeeNormalized (assignStatus pl sb r) = payeeNormalized r"
  "monthKey (assignStatus pl sb r) = monthKey r"
  "amountAbs (assignStatus pl sb r) = amountAbs r"
  "isBillCandidate (assignStatus pl sb r) = isBillCandidate r"
  by (simp_all add: assignStatus_def Let_def)

lemma assignRequired_keeps:
  "isSpend (assignRequired lt al r) = isSpend r"
  "amount (assignRequired lt al r) = amount r"
  "isInternalTransfer (assignRequired lt al r) = isInternalTransfer r"
  "payeeNormalized (assignRequired lt al r) = payeeNormalized r"
  "monthKey (assignRequired lt al r) = monthKey r"
  "amountAbs (assignRequired lt al r) = amountAbs r"
  "isBillCandidate (assignRequired lt al r) = isBillCandidate r"
  "billStatus (assignRequired lt al r) = billStatus r"
  by (simp_all add: assignRequired_def Let_def)

lemma applyBillStatus_spendEligible:
  assumes "\<forall>t \<in> set rows. spendEligible t"
  shows "\<forall>t \<in> set (applyBillStatus rows). spendEligible t"
proof -
  have a: "\<And>st r. spendEligible (markCandidate st r) = spendEligible r"
    by (rule spendEligible_cong) (simp_all add: markCandidate_keeps)
  have b: "\<And>pl sb r. spendEligible (assignStatus pl sb r) = spendEligible r"
    by (rule spendEligible_cong) (simp_all add: assignStatus_keeps)
  have c: "\<And>lt al r. spendEligible (assignRequired lt al r) = spendEligible r"
    by (rule spendEligible_cong) (simp_all add: assignRequired_keeps)
  have d: "\<And>r. spendEligible (r\<lparr>billStatus := ''not_bill'', isBillCandidate := False,
                      requiredAmountExact := 0\<rparr>) = spendEligible r"
    by (simp add: spendEligible_def)
  show ?thesis using assms
    unfolding applyBillStatus_def Let_def
    by (auto simp: a b c d simp del: length_0_conv)
qed

text \<open>
  Claim C7. After the exclusion stage every transaction is spend-eligible exactly when its
  amount is negative and it is not an internal transfer; each later stage
  (\<open>categorize\<close>, \<open>applyPayeeOverrides\<close>, \<open>applyBillStatus\<close>) preserves this on every
  batch, so it holds of every transaction at the end of the pipeline. \<open>categorize\<close> is the
  one stage that can throw; the property is of the batch it returns.
\<close>

theorem spend_invariant_all_stages:
  "(\<forall>t \<in> set (applyExclusions ex rows0). spendEligible t)
   \<and> ((\<forall>t \<in> set rows. spendEligible t) \<longrightarrow>
        (\<forall>out. categorize env cfg rows = Inr out \<longrightarrow> (\<forall>t \<in> set out. spendEligible t)))
   \<and> ((\<forall>t \<in> set rows. spendEligible t) \<longrightarrow>
        (\<forall>t \<in> set (applyPayeeOverrides rows ov). spendEligible t))
   \<and> ((\<forall>t \<in> set rows. spendEligible t) \<longrightarrow>
        (\<forall>t \<in> set (applyBillStatus rows). spendEligible t))
   \<and> (\<forall>categorized. categorize env cfg (applyExclusions ex rows0) = Inr categorized \<longrightarrow>
        (\<forall>t \<in> set (applyBillStatus (applyPayeeOverrides categorized ov)). spendEligible t))"
proof (intro conjI impI allI)
  show 1: "\<forall>t \<in> set (applyExclusions ex rows0). spendEligible t"
    by (simp add: applyExclusions_spendEligible)
  fix categorized
  assume "categorize env cfg (applyExclusions ex rows0) = Inr categorized"
  note 2 = categorize_spendEligible [OF 1 this]
  note 3 = applyPayeeOverrides_spendEligible [OF 2, of ov]
  show "\<forall>t \<in> set (applyBillStatus (applyPayeeOverrides categorized ov)). spendEligible t"
    by (rule applyBillStatus_spendEligible [OF 3])
next
  fix out
  assume "\<forall>t \<in> set rows. spendEligible t" "categorize env cfg rows = Inr out"
  then show "\<forall>t \<in> set out. spendEligible t"
    by (rule categorize_spendEligible)
next
  assume "\<forall>t \<in> set rows. spendEligible t"
  then show "\<forall>t \<in> set (applyPayeeOverrides rows ov). spendEligible t"
    by (rule applyPayeeOverrides_spendEligible)
next
  assume "\<forall>t \<in> set rows. spendEligible t"
  then show "\<forall>t \<in> set (applyBillStatus rows). spendEligible t"
    by (rule applyBillStatus_spendEligible)
qed

theorem spend_invariant_all_stages_witness:
  "\<exists>categorized.
     categorize exampleEnv exampleRules (applyExclusions exampleExclusions exampleBatch)
       = Inr categorized
     \<and> map isSpend (applyBillStatus (applyPayeeOverrides categorized Map.empty))
         = [True, False, False]
     \<and> spendEligible (applyBillStatus (applyPayeeOverrides categorized Map.empty) ! 0)
     \<and> spendEligible (applyBillStatus (applyPayeeOverrides categorized Map.empty) ! 1)
     \<and> spendEligible (applyBillStatus (applyPayeeOverrides categorized Map.empty) ! 2)"
proof -
  let ?c = "categorize exampleEnv exampleRules (applyExclusions exampleExclusions exampleBatch)"
  let ?out = "applyBillStatus (applyPayeeOverrides (projr ?c) Map.empty)"
  have "\<not> isl ?c" by code_simp
  then have c: "?c = Inr (projr ?c)" by simp
  have e: "map isSpend ?out = [True, False, False]"
    by code_simp
  then have "length (map isSpend ?out) = 3" by simp
  then have len: "length ?out = 3" by simp
  then have mem: "?out ! 0 \<in> set ?out" "?out ! 1 \<in> set ?out" "?out ! 2 \<in> set ?out"
    by simp_all
  from spend_invariant_all_stages
         [where ex = exampleExclusions and ?rows0.0 = exampleBatch and env = exampleEnv
            and cfg = exampleRules and ov = Map.empty] c
  have "\<forall>t \<in> set ?out. spendEligible t" by blast
  with mem have s: "spendEligible (?out ! 0)" "spendEligible (?out ! 1)" "spendEligible (?out ! 2)"
    by blast+
  show ?thesis
    by (intro exI [of _ "projr ?c"] conjI) (rule c e s)+
qed

section \<open>Similarity ratio\<close>

lemma lcsLength_upper:
  "subseq s a \<Longrightarrow> subseq s b \<Longrightarrow> length s \<le> lcsLength a b"
proof (induction a b arbitrary: s rule: lcsLength.induct)
  case (1 ys)
  then show ?case by simp
next
  case (2 x xs)
  then show ?case by simp
next
  case (3 x xs y ys)
  show ?case
  proof (cases s)
    case Nil
    then show ?thesis by simp
  next
    case (Cons z s')
    show ?thesis
    proof (cases "x = y")
      case True
      show ?thesis
      proof (cases "z = x")
        case zx: True
        with Cons True "3.prems" have "subseq s' xs" "subseq s' ys" by simp_all
        with "3.IH"(1) [OF True] have "length s' \<le> lcsLength xs ys" by blast
        with Cons True show ?thesis by simp
      next
        case False
        with Cons True "3.prems" have "subseq s xs" "subseq s ys" by simp_all
        with "3.IH"(1) [OF True] have "length s \<le> lcsLength xs ys" by blast
        with True show ?thesis by simp
      qed
    next
      case False
      show ?thesis
      proof (cases "z = x")
        case True
        with False Cons "3.prems" have "subseq s ys" by simp
        with "3.IH"(3) [OF False] "3.prems"(1) have "length s \<le> lcsLength (x # xs) ys" by blast
        with False show ?thesis by simp
      next
        case zx: False
        with Cons "3.prems" have "subseq s xs" by simp
        with "3.IH"(2) [OF False] "3.prems"(2) have "length s \<le> lcsLength xs (y # ys)" by blast
        with False show ?thesis by simp
      qed
    qed
  qed
qed

lemma lcsLength_attained:
  "\<exists>s. subseq s a \<and> subseq s b \<and> length s = lcsLength a b"
proof (induction a b rule: lcsLength.induct)
  case (1 ys)
  then show ?case by simp
next
  case (2 x xs)
  show ?case by (rule exI[of _ "[]"]) simp
next
  case (3 x xs y ys)
  show ?case
  proof (cases "x = y")
    case True
    from "3.IH"(1) [OF True] obtain s where "subseq s xs" "subseq s ys" "length s = lcsLength xs ys"
      by blast
    with True show ?thesis by (intro exI[of _ "x # s"]) simp
  next
    case False
    show ?thesis
    proof (cases "lcsLength xs (y # ys) \<ge> lcsLength (x # xs) ys")
      case True
      from "3.IH"(2) [OF False] obtain s where
        s: "subseq s xs" "subseq s (y # ys)" "length s = lcsLength xs (y # ys)" by blast
      from s(1) have "subseq s (x # xs)" by (rule list_emb_Cons)
      moreover from False True s(3) have "length s = lcsLength (x # xs) (y # ys)"
        by (simp add: max_def)
      ultimately show ?thesis using s(2) by blast
    next
      case ge: False
      from "3.IH"(3) [OF False] obtain s where
        s: "subseq s (x # xs)" "subseq s ys" "length s = lcsLength (x # xs) ys" by blast
      from s(2) have "subseq s (y # ys)" by (rule list_emb_Cons)
      moreover from False ge s(3) have "length s = lcsLength (x # xs) (y # ys)"
        by (simp add: max_def)
      ultimately show ?thesis using s(1) by blast
    qed
  qed
qed

lemma lcsLength_longest:
  assumes "subseq s a" "subseq s b"
    and "\<forall>t. subseq t a \<and> subseq t b \<longrightarrow> length t \<le> length s"
  shows "lcsLength a b = length s"
proof -
  from lcsLength_attained [of a b] obtain t where
    t: "subseq t a" "subseq t b" "length t = lcsLength a b" by blast
  with assms(3) have "lcsLength a b \<le> length s" by auto
  moreover from assms(1,2) have "length s \<le> lcsLength a b" by (rule lcsLength_upper)
  ultimately show ?thesis by simp
qed

lemma subseq_rev: "subseq xs ys \<Longrightarrow> subseq (rev xs) (rev ys)"
proof (induction rule: list_emb.induct)
  case (list_emb_Nil ys)
  then show ?case by simp
next
  case (list_emb_Cons xs ys y)
  then show ?case by (simp add: subseq_rev_drop_many)
next
  case (list_emb_Cons2 x y xs ys)
  then show ?case by (simp add: list_emb_append_mono)
qed

lemma lcsLength_rev_le: "lcsLength a b \<le> lcsLength (rev a) (rev b)"
proof -
  from lcsLength_attained [of a b] obtain t where
    t: "subseq t a" "subseq t b" "length t = lcsLength a b" by blast
  then have "subseq (rev t) (rev a)" "subseq (rev t) (rev b)" by (simp_all add: subseq_rev)
  then have "length (rev t) \<le> lcsLength (rev a) (rev b)" by (rule lcsLength_upper)
  with t(3) show ?thesis by simp
qed

lemma lcsLength_rev: "lcsLength (rev a) (rev b) = lcsLength a b"
  using lcsLength_rev_le [of a b] lcsLength_rev_le [of "rev a" "rev b"] by simp

lemma lcsLength_commute_le: "lcsLength a b \<le> lcsLength b a"
proof -
  from lcsLength_attained [of a b] obtain t where
    t: "subseq t a" "subseq t b" "length t = lcsLength a b" by blast
  from t(2) t(1) have "length t \<le> lcsLength b a" by (rule lcsLength_upper)
  with t(3) show ?thesis by simp
qed

lemma lcsLength_commute: "lcsLength a b = lcsLength b a"
  using lcsLength_commute_le [of a b] lcsLength_commute_le [of b a] by simp

lemma lcsLength_same: "lcsLength a a = length a"
proof -
  have "length a \<le> lcsLength a a" by (rule lcsLength_upper) simp_all
  moreover from lcsLength_attained [of a a] obtain t where
    "subseq t a" "length t = lcsLength a a" by blast
  then have "lcsLength a a \<le> length a" by (metis list_emb_length)
  ultimately show ?thesis by simp
qed

lemma lcsLength_Nil2: "lcsLength xs [] = 0"
  by (cases xs) simp_all

lemma cellT_0: "cellT s l 0 j = 0" "cellT s l i 0 = 0"
  by (simp_all add: cellT_def lcsLength_Nil2)

lemma cellT_Suc:
  assumes "i < length s" "j < length l"
  shows "cellT s l (Suc i) (Suc j) =
           (if s ! i = l ! j then cellT s l i j + 1
            else max (cellT s l i (Suc j)) (cellT s l (Suc i) j))"
  using assms by (simp add: cellT_def take_Suc_conv_app_nth)

lemma dpCell_length: "length (dpCell s l i j dp) = length dp"
  by (simp add: dpCell_def)

lemma dpCell_row_other:
  "i' \<noteq> i \<Longrightarrow> dpCell s l i j dp ! i' = dp ! i'"
  by (simp add: dpCell_def)

lemma dpCell_row_same:
  "i < length dp \<Longrightarrow> dpCell s l i j dp ! i =
     (dp ! i)[j := (if s ! (i - 1) = l ! (j - 1) then dp ! (i - 1) ! (j - 1) + 1
                    else max (dp ! (i - 1) ! j) (dp ! i ! (j - 1)))]"
  by (simp add: dpCell_def)

lemma dpCell_shape:
  assumes "tableShape s l dp" "i \<le> length s" "0 < j"
  shows "tableShape s l (dpCell s l i j dp)"
proof -
  from assms(1,2) have il: "i < length dp" by (simp add: tableShape_def)
  have "\<And>i'. i' \<le> length s \<Longrightarrow>
      length (dpCell s l i j dp ! i') = Suc (length l) \<and> dpCell s l i j dp ! i' ! 0 = 0"
  proof -
    fix i' assume i': "i' \<le> length s"
    show "length (dpCell s l i j dp ! i') = Suc (length l) \<and> dpCell s l i j dp ! i' ! 0 = 0"
    proof (cases "i' = i")
      case True
      with assms il show ?thesis
        by (simp add: dpCell_row_same tableShape_def)
    next
      case False
      with assms i' show ?thesis by (simp add: dpCell_row_other tableShape_def)
    qed
  qed
  with assms(1) show ?thesis by (simp add: tableShape_def dpCell_length)
qed

lemma cell_step:
  assumes inv: "cellsDone s l (Suc i) c dp" and i: "i < length s" and c: "c < length l"
  shows "cellsDone s l (Suc i) (Suc c) (dpCell s l (Suc i) (Suc c) dp)"
proof -
  let ?dp' = "dpCell s l (Suc i) (Suc c) dp"
  from inv have shape: "tableShape s l dp" by (simp add: cellsDone_def)
  from shape i have il: "Suc i < length dp" and rl: "length (dp ! Suc i) = Suc (length l)"
    by (simp_all add: tableShape_def)
  from shape i have shape': "tableShape s l ?dp'"
    by (intro dpCell_shape) simp_all
  have prev: "\<And>i' j. i' < Suc i \<Longrightarrow> j \<le> length l \<Longrightarrow> ?dp' ! i' ! j = cellT s l i' j"
  proof -
    fix i' j assume a: "i' < Suc i" "j \<le> length l"
    then have "?dp' ! i' = dp ! i'" by (simp add: dpCell_row_other)
    with inv a show "?dp' ! i' ! j = cellT s l i' j" by (simp add: cellsDone_def)
  qed
  have old: "dp ! i ! c = cellT s l i c" "dp ! i ! Suc c = cellT s l i (Suc c)"
    "dp ! Suc i ! c = cellT s l (Suc i) c"
    using inv c by (simp_all add: cellsDone_def)
  have cur: "\<And>j. j \<le> Suc c \<Longrightarrow> ?dp' ! Suc i ! j = cellT s l (Suc i) j"
  proof -
    fix j assume j: "j \<le> Suc c"
    show "?dp' ! Suc i ! j = cellT s l (Suc i) j"
    proof (cases "j = Suc c")
      case True
      with il rl c old show ?thesis
        by (simp add: dpCell_row_same cellT_Suc [OF i c])
    next
      case False
      with j have jc: "j \<le> c" by simp
      with False il have "?dp' ! Suc i ! j = dp ! Suc i ! j"
        by (simp add: dpCell_row_same)
      with inv jc show ?thesis by (simp add: cellsDone_def)
    qed
  qed
  from shape' prev cur show ?thesis by (simp add: cellsDone_def)
qed

lemma fold_cells:
  assumes "cellsDone s l (Suc i) c dp" "i < length s" "c \<le> length l"
  shows "cellsDone s l (Suc i) (length l)
           (fold (\<lambda>j d. dpCell s l (Suc i) j d) [Suc c..<Suc (length l)] dp)"
  using assms
proof (induction "length l - c" arbitrary: c dp)
  case 0
  then have "c = length l" by simp
  with "0.prems" show ?case by simp
next
  case (Suc k)
  then have c: "c < length l" by simp
  have step: "cellsDone s l (Suc i) (Suc c) (dpCell s l (Suc i) (Suc c) dp)"
    using Suc.prems(1,2) c by (rule cell_step)
  have k: "k = length l - Suc c" using Suc.hyps(2) by simp
  have "cellsDone s l (Suc i) (length l)
          (fold (\<lambda>j d. dpCell s l (Suc i) j d) [Suc (Suc c)..<Suc (length l)]
             (dpCell s l (Suc i) (Suc c) dp))"
    using Suc.hyps(1) [OF k step Suc.prems(2)] c by simp
  moreover have "[Suc c..<Suc (length l)] = Suc c # [Suc (Suc c)..<Suc (length l)]"
    using c by (simp add: upt_conv_Cons)
  ultimately show ?case by simp
qed

lemma row_step:
  assumes "rowsDone s l k dp" "k < length s"
  shows "rowsDone s l (Suc k) (dpRow s l (Suc k) dp)"
proof -
  from assms have "cellsDone s l (Suc k) 0 dp"
    by (auto simp: rowsDone_def cellsDone_def tableShape_def cellT_0)
  then have "cellsDone s l (Suc k) (length l)
      (fold (\<lambda>j d. dpCell s l (Suc k) j d) [Suc 0..<Suc (length l)] dp)"
    using assms(2) by (rule fold_cells) simp
  then have fin: "cellsDone s l (Suc k) (length l) (dpRow s l (Suc k) dp)"
    by (simp add: dpRow_def)
  show ?thesis unfolding rowsDone_def
  proof (intro conjI allI impI)
    from fin show "tableShape s l (dpRow s l (Suc k) dp)" by (simp add: cellsDone_def)
  next
    fix i j assume "i \<le> Suc k \<and> j \<le> length l"
    with fin show "dpRow s l (Suc k) dp ! i ! j = cellT s l i j"
      by (cases "i = Suc k") (simp_all add: cellsDone_def)
  qed
qed

lemma fold_rows:
  assumes "rowsDone s l k dp" "k \<le> length s"
  shows "rowsDone s l (length s) (fold (\<lambda>i d. dpRow s l i d) [Suc k..<Suc (length s)] dp)"
  using assms
proof (induction "length s - k" arbitrary: k dp)
  case 0
  then have "k = length s" by simp
  with "0.prems" show ?case by simp
next
  case (Suc n)
  then have k: "k < length s" by simp
  have step: "rowsDone s l (Suc k) (dpRow s l (Suc k) dp)"
    using Suc.prems(1) k by (rule row_step)
  have n: "n = length s - Suc k" using Suc.hyps(2) by simp
  have "rowsDone s l (length s)
          (fold (\<lambda>i d. dpRow s l i d) [Suc (Suc k)..<Suc (length s)] (dpRow s l (Suc k) dp))"
    using Suc.hyps(1) [OF n step] k by simp
  moreover have "[Suc k..<Suc (length s)] = Suc k # [Suc (Suc k)..<Suc (length s)]"
    using k by (simp add: upt_conv_Cons)
  ultimately show ?case by simp
qed

lemma rowsDone_init:
  "rowsDone s l 0 (replicate (Suc (length s)) (replicate (Suc (length l)) 0))"
  by (simp add: rowsDone_def tableShape_def cellT_0 nth_Cons')

lemma dpTable_lcsLength: "dpTable s l ! length s ! length l = lcsLength s l"
proof -
  have "rowsDone s l (length s) (dpTable s l)"
    unfolding dpTable_def
    using fold_rows [OF rowsDone_init, of s l] by simp
  then have "dpTable s l ! length s ! length l = cellT s l (length s) (length l)"
    by (simp add: rowsDone_def)
  then show ?thesis by (simp add: cellT_def lcsLength_rev)
qed

lemma ratio_by_lcsLength:
  "sequenceMatcherRatio a b =
     (if a = b then 1 else if a = [] \<or> b = [] then 0
      else 2 * of_nat (lcsLength a b) / of_nat (length a + length b))"
proof (cases "length a > length b")
  case True
  then show ?thesis
    by (auto simp: sequenceMatcherRatio_def Let_def dpTable_lcsLength
          lcsLength_commute [of b a] add.commute)
next
  case False
  then show ?thesis
    by (auto simp: sequenceMatcherRatio_def Let_def dpTable_lcsLength)
qed

text \<open>
  Claim C9, as stated, fails on the pair of two empty strings: the strings are identical,
  so the function returns 1, not the 0 the claim gives to a pair with an empty string.
\<close>

theorem sequenceMatcherRatio_both_empty_counterexample:
  "sequenceMatcherRatio [] [] = 1 \<and> sequenceMatcherRatio [] [] \<noteq> 0"
  by (simp add: sequenceMatcherRatio_def)

text \<open>
  Claim C9, amended. For all strings \<open>a\<close>, \<open>b\<close> that are not both empty, and every longest
  common subsequence \<open>s\<close> of them, \<open>sequenceMatcherRatio a b\<close> is
  \<open>2 * length s / (length a + length b)\<close>; the function is symmetric; identical strings
  (two empty strings included) score 1; and a pair in which exactly one string is empty
  scores 0.
\<close>

theorem sequenceMatcherRatio_lcs:
  "(a \<noteq> [] \<or> b \<noteq> [] \<longrightarrow>
      (\<forall>s. subseq s a \<and> subseq s b
            \<and> (\<forall>t. subseq t a \<and> subseq t b \<longrightarrow> length t \<le> length s)
         \<longrightarrow> sequenceMatcherRatio a b = 2 * of_nat (length s) / of_nat (length a + length b)))
   \<and> sequenceMatcherRatio a b = sequenceMatcherRatio b a
   \<and> sequenceMatcherRatio a a = 1
   \<and> ((a = [] \<and> b \<noteq> []) \<or> (a \<noteq> [] \<and> b = []) \<longrightarrow> sequenceMatcherRatio a b = 0)"
proof (intro conjI impI allI)
  fix s
  assume ne: "a \<noteq> [] \<or> b \<noteq> []"
    and s: "subseq s a \<and> subseq s b
            \<and> (\<forall>t. subseq t a \<and> subseq t b \<longrightarrow> length t \<le> length s)"
  then have L: "lcsLength a b = length s" by (intro lcsLength_longest) simp_all
  show "sequenceMatcherRatio a b = 2 * of_nat (length s) / of_nat (length a + length b)"
  proof (cases "a = b")
    case True
    with ne have "a \<noteq> []" by simp
    then have "length a > 0" by simp
    moreover from True L have "length s = length a" by (simp add: lcsLength_same)
    ultimately show ?thesis using True
      by (simp add: ratio_by_lcsLength)
  next
    case False
    show ?thesis
    proof (cases "a = [] \<or> b = []")
      case True
      with s have "s = []" by auto
      with False True show ?thesis by (simp add: ratio_by_lcsLength)
    next
      case nonempty: False
      with False L show ?thesis by (simp add: ratio_by_lcsLength)
    qed
  qed
next
  show "sequenceMatcherRatio a b = sequenceMatcherRatio b a"
    by (auto simp: ratio_by_lcsLength lcsLength_commute [of a b] add.commute)
next
  show "sequenceMatcherRatio a a = 1" by (simp add: sequenceMatcherRatio_def)
next
  assume "(a = [] \<and> b \<noteq> []) \<or> (a \<noteq> [] \<and> b = [])"
  then show "sequenceMatcherRatio a b = 0" by (auto simp: sequenceMatcherRatio_def)
qed

theorem sequenceMatcherRatio_lcs_witness:
  "''ab'' \<noteq> [] \<and> subseq ''b'' ''ab'' \<and> subseq ''b'' ''b''
   \<and> sequenceMatcherRatio ''ab'' ''b'' = 2 / 3
   \<and> sequenceMatcherRatio ''ab'' ''b'' = sequenceMatcherRatio ''b'' ''ab''
   \<and> sequenceMatcherRatio ''ab'' [] = 0"
proof -
  have s: "subseq ''b'' ''ab''" "subseq ''b'' ''b''" by simp_all
  have m: "\<forall>t. subseq t ''ab'' \<and> subseq t ''b'' \<longrightarrow> length t \<le> length ''b''"
    by (auto dest: list_emb_length)
  from sequenceMatcherRatio_lcs [of "''ab''" "''b''"] s m
  have "sequenceMatcherRatio ''ab'' ''b''
          = 2 * of_nat (length ''b'') / of_nat (length ''ab'' + length ''b'')"
    by blast
  then have r: "sequenceMatcherRatio ''ab'' ''b'' = 2 / 3" by simp
  from sequenceMatcherRatio_lcs [of "''ab''" "''b''"]
  have c: "sequenceMatcherRatio ''ab'' ''b'' = sequenceMatcherRatio ''b'' ''ab''" by blast
  from sequenceMatcherRatio_lcs [of "''ab''" "[]"]
  have z: "sequenceMatcherRatio ''ab'' [] = 0" by blast
  from s r c z show ?thesis by simp
qed

section \<open>Bill candidacy, status and required amount\<close>

lemma fold_setAdd_set: "set (fold (\<lambda>x acc. setAdd acc x) xs acc) = set acc \<union> set xs"
  by (induction xs arbitrary: acc) (auto simp: setAdd_def)

lemma fold_setAdd_distinct:
  "distinct acc \<Longrightarrow> distinct (fold (\<lambda>x acc. setAdd acc x) xs acc)"
  by (induction xs arbitrary: acc) (auto simp: setAdd_def)

lemma set_newSet: "set (newSet xs) = set xs"
  by (simp add: newSet_def fold_setAdd_set)

lemma distinct_newSet: "distinct (newSet xs)"
  by (simp add: newSet_def fold_setAdd_distinct)

lemma length_newSet: "length (newSet xs) = card (set xs)"
  using distinct_card [OF distinct_newSet, of xs] by (simp add: set_newSet)

lemma last_sort_Max:
  fixes xs :: "'a::linorder list"
  assumes "xs \<noteq> []"
  shows "last (sort xs) = Max (set xs)"
proof -
  from assms have ne: "sort xs \<noteq> []" by (metis length_sort length_0_conv)
  have "last (sort xs) \<in> set (sort xs)" using ne by (rule last_in_set)
  then have mem: "last (sort xs) \<in> set xs" by simp
  have "\<And>y. y \<in> set xs \<Longrightarrow> y \<le> last (sort xs)"
  proof -
    fix y assume "y \<in> set xs"
    then have "y \<in> set (sort xs)" by simp
    then obtain i where i: "i < length (sort xs)" "sort xs ! i = y"
      by (metis in_set_conv_nth)
    have "sort xs ! i \<le> sort xs ! (length (sort xs) - 1)"
      using i(1) by (intro sorted_nth_mono) simp_all
    with i(2) ne show "y \<le> last (sort xs)" by (simp add: last_conv_nth)
  qed
  with mem show ?thesis by (intro Max_eqI [symmetric]) simp_all
qed

lemma latestMonthOf_Max:
  assumes "\<exists>r \<in> set rows. isSpend r"
  shows "latestMonthOf rows = mostRecentSpendMonth rows"
proof -
  from assms have "filter isSpend rows \<noteq> []" by (auto simp: filter_empty_conv)
  then have "newSet (map monthKey (filter isSpend rows)) \<noteq> []"
    by (metis set_newSet set_empty map_is_Nil_conv)
  then have "latestMonthOf rows = Max (set (newSet (map monthKey (filter isSpend rows))))"
    unfolding latestMonthOf_def by (rule last_sort_Max)
  also have "set (newSet (map monthKey (filter isSpend rows))) = monthKey ` {r \<in> set rows. isSpend r}"
    by (simp add: set_newSet)
  finally show ?thesis by (simp add: mostRecentSpendMonth_def)
qed

lemma statsStep_apply:
  "statsStep x st p =
     (if payeeNormalized x = p
      then Some (setAdd (fst (case st p of None \<Rightarrow> ([], 0) | Some v \<Rightarrow> v)) (monthKey x),
                 snd (case st p of None \<Rightarrow> ([], 0) | Some v \<Rightarrow> v) + 1)
      else st p)"
  by (auto simp: statsStep_def Let_def)

lemma fold_statsStep:
  "fold statsStep xs st p =
     (if filter (\<lambda>r. payeeNormalized r = p) xs = [] then st p
      else Some (fold (\<lambda>x acc. setAdd acc x)
                   (map monthKey (filter (\<lambda>r. payeeNormalized r = p) xs))
                   (fst (case st p of None \<Rightarrow> ([], 0) | Some v \<Rightarrow> v)),
                 snd (case st p of None \<Rightarrow> ([], 0) | Some v \<Rightarrow> v)
                   + length (filter (\<lambda>r. payeeNormalized r = p) xs)))"
proof (induction xs arbitrary: st)
  case Nil
  then show ?case by simp
next
  case (Cons x xs)
  have step: "fold statsStep (x # xs) st p =
     (if filter (\<lambda>r. payeeNormalized r = p) xs = [] then statsStep x st p
      else Some (fold (\<lambda>x acc. setAdd acc x)
                   (map monthKey (filter (\<lambda>r. payeeNormalized r = p) xs))
                   (fst (case statsStep x st p of None \<Rightarrow> ([], 0) | Some v \<Rightarrow> v)),
                 snd (case statsStep x st p of None \<Rightarrow> ([], 0) | Some v \<Rightarrow> v)
                   + length (filter (\<lambda>r. payeeNormalized r = p) xs)))"
    using Cons.IH [of "statsStep x st"] by simp
  have v: "statsStep x st p =
     (if payeeNormalized x = p
      then Some (setAdd (fst (case st p of None \<Rightarrow> ([], 0) | Some v \<Rightarrow> v)) (monthKey x),
                 snd (case st p of None \<Rightarrow> ([], 0) | Some v \<Rightarrow> v) + 1)
      else st p)"
    by (rule statsStep_apply)
  show ?case unfolding step v by (cases "payeeNormalized x = p") simp_all
qed

lemma payeeStats_lookup:
  "(case payeeStats xs p of None \<Rightarrow> ([], 0) | Some s \<Rightarrow> s) =
     (newSet (map monthKey (filter (\<lambda>r. payeeNormalized r = p) xs)),
      length (filter (\<lambda>r. payeeNormalized r = p) xs))"
  by (simp add: payeeStats_def fold_statsStep newSet_def)

lemma markCandidate_recurringLike:
  "isBillCandidate (markCandidate (payeeStats (filter isSpend rows)) r) \<longleftrightarrow>
     isBillRule r \<or> (type r \<in> set DIRECT_DEBIT_TYPES \<and> recurringLike rows (payeeNormalized r))"
proof -
  have a: "set (filter (\<lambda>x. payeeNormalized x = payeeNormalized r) (filter isSpend rows))
        = {x \<in> set rows. isSpend x \<and> payeeNormalized x = payeeNormalized r}"
    by auto
  have b: "filter (\<lambda>x. payeeNormalized x = payeeNormalized r) (filter isSpend rows)
        = filter (\<lambda>x. isSpend x \<and> payeeNormalized x = payeeNormalized r) rows"
    by (simp add: conj_commute)
  have "length (newSet (map monthKey
          (filter (\<lambda>x. payeeNormalized x = payeeNormalized r) (filter isSpend rows))))
        = card (monthKey ` {x \<in> set rows. isSpend x \<and> payeeNormalized x = payeeNormalized r})"
    by (simp only: length_newSet set_map a)
  then show ?thesis
    unfolding markCandidate_def Let_def payeeStats_lookup recurringLike_def
    by (simp add: b)
qed

lemma applyBillStatus_stages:
  assumes "\<exists>r \<in> set rows. isSpend r"
  shows "applyBillStatus rows =
     map (assignRequired (fold (latestStep (latestMonthOf rows)) (activeSpendOf rows) Map.empty)
                         (fold allStep (activeSpendOf rows) Map.empty))
         (statusRows rows)"
proof -
  from assms have "filter isSpend rows \<noteq> []" by (auto simp: filter_empty_conv)
  then show ?thesis
    by (simp add: applyBillStatus_def Let_def latestMonthOf_def candidateRows_def
          presentLatestOf_def seenBeforeOf_def statusRows_def activeSpendOf_def)
qed

lemma applyBillStatus_no_spend:
  assumes "\<not> (\<exists>r \<in> set rows. isSpend r)"
  shows "applyBillStatus rows =
     map (\<lambda>r. r\<lparr>billStatus := ''not_bill'', isBillCandidate := False,
                requiredAmountExact := 0\<rparr>) rows"
proof -
  from assms have "filter isSpend rows = []" by (auto simp: filter_empty_conv)
  then show ?thesis by (simp add: applyBillStatus_def)
qed

lemma applyBillStatus_length: "length (applyBillStatus rows) = length rows"
  by (cases "\<exists>r \<in> set rows. isSpend r")
     (simp_all add: applyBillStatus_stages applyBillStatus_no_spend statusRows_def candidateRows_def)

lemma candidateRows_nth:
  "i < length rows \<Longrightarrow>
     candidateRows rows ! i = markCandidate (payeeStats (filter isSpend rows)) (rows ! i)"
  by (simp add: candidateRows_def)

lemma statusRows_nth:
  "i < length rows \<Longrightarrow>
     statusRows rows ! i =
       assignStatus (presentLatestOf rows) (seenBeforeOf rows) (candidateRows rows ! i)"
  by (simp add: statusRows_def candidateRows_def)

lemma statusRows_length: "length (statusRows rows) = length rows"
  by (simp add: statusRows_def candidateRows_def)

text \<open>
  Claim C3. After \<open>applyBillStatus\<close> on a batch with at least one spend transaction, a
  transaction is marked \<open>isBillCandidate\<close> if and only if its matched rule flagged it as a
  bill (\<open>isBillRule\<close>), or its provider transaction type is one of the recognised
  direct-debit types and its payee is recurring-like: the payee's spend transactions span
  at least two distinct months and number at least two.
\<close>

theorem applyBillStatus_candidacy:
  assumes "\<exists>r \<in> set rows. isSpend r" and "i < length rows"
  shows "isBillCandidate (applyBillStatus rows ! i) \<longleftrightarrow>
           isBillRule (rows ! i)
           \<or> (type (rows ! i) \<in> set DIRECT_DEBIT_TYPES
               \<and> recurringLike rows (payeeNormalized (rows ! i)))"
  using assms(2)
  by (simp add: applyBillStatus_stages [OF assms(1)] statusRows_length statusRows_nth
        candidateRows_nth assignRequired_keeps assignStatus_keeps markCandidate_recurringLike)

theorem applyBillStatus_candidacy_witness:
  "(\<exists>r \<in> set mixedPayeeBatch. isSpend r) \<and> 0 < length mixedPayeeBatch
   \<and> 2 < length mixedPayeeBatch
   \<and> type (mixedPayeeBatch ! 0) \<in> set DIRECT_DEBIT_TYPES
   \<and> recurringLike mixedPayeeBatch (payeeNormalized (mixedPayeeBatch ! 0))
   \<and> isBillCandidate (applyBillStatus mixedPayeeBatch ! 0)
   \<and> \<not> isBillCandidate (applyBillStatus mixedPayeeBatch ! 2)"
proof -
  have sp: "\<exists>r \<in> set mixedPayeeBatch. isSpend r" by code_simp
  have l0: "0 < length mixedPayeeBatch" by code_simp
  have l2: "2 < length mixedPayeeBatch" by code_simp
  have ty: "type (mixedPayeeBatch ! 0) \<in> set DIRECT_DEBIT_TYPES" by code_simp
  have rc: "recurringLike mixedPayeeBatch (payeeNormalized (mixedPayeeBatch ! 0))" by code_simp
  have nb: "\<not> isBillRule (mixedPayeeBatch ! 2)" by code_simp
  have nt: "type (mixedPayeeBatch ! 2) \<notin> set DIRECT_DEBIT_TYPES" by code_simp
  from applyBillStatus_candidacy [OF sp l0] ty rc
  have c0: "isBillCandidate (applyBillStatus mixedPayeeBatch ! 0)" by blast
  from applyBillStatus_candidacy [OF sp l2] nb nt
  have c2: "\<not> isBillCandidate (applyBillStatus mixedPayeeBatch ! 2)" by blast
  from sp l0 l2 ty rc c0 c2 show ?thesis by blast
qed

lemma mem_presentLatestOf:
  "p \<in> set (presentLatestOf rows) \<longleftrightarrow>
     latestMonthOf rows \<in> candidateSpendMonths (candidateRows rows) p"
  unfolding presentLatestOf_def set_newSet candidateSpendMonths_def
  by (auto simp: image_iff)

lemma mem_seenBeforeOf:
  "p \<in> set (seenBeforeOf rows) \<longleftrightarrow>
     (\<exists>m \<in> candidateSpendMonths (candidateRows rows) p. m \<noteq> latestMonthOf rows)"
  unfolding seenBeforeOf_def set_newSet candidateSpendMonths_def
  by (auto simp: image_iff)

lemma candidateSpendMonths_le:
  assumes "\<exists>r \<in> set rows. isSpend r" and "m \<in> candidateSpendMonths (candidateRows rows) p"
  shows "m \<le> mostRecentSpendMonth rows"
proof -
  from assms(2) obtain r where r: "r \<in> set (candidateRows rows)" "isSpend r" "monthKey r = m"
    by (auto simp: candidateSpendMonths_def)
  from r(1) obtain r0 where r0: "r0 \<in> set rows"
      "r = markCandidate (payeeStats (filter isSpend rows)) r0"
    by (auto simp: candidateRows_def)
  with r(2,3) have "isSpend r0" "monthKey r0 = m" by (simp_all add: markCandidate_keeps)
  with r0(1) have "m \<in> monthKey ` {r \<in> set rows. isSpend r}" by auto
  then show ?thesis unfolding mostRecentSpendMonth_def by (intro Max_ge) simp_all
qed

lemma candidateSpendMonths_map:
  assumes "\<And>r. payeeNormalized (g r) = payeeNormalized r"
    and "\<And>r. isBillCandidate (g r) = isBillCandidate r"
    and "\<And>r. isSpend (g r) = isSpend r"
    and "\<And>r. monthKey (g r) = monthKey r"
  shows "candidateSpendMonths (map g xs) p = candidateSpendMonths xs p"
proof -
  have "\<And>m. m \<in> candidateSpendMonths (map g xs) p \<longleftrightarrow> m \<in> candidateSpendMonths xs p"
    unfolding candidateSpendMonths_def using assms by (auto simp: image_iff) 
  then show ?thesis by blast
qed

lemma candidateSpendMonths_out:
  assumes "\<exists>r \<in> set rows. isSpend r"
  shows "candidateSpendMonths (applyBillStatus rows) p
           = candidateSpendMonths (candidateRows rows) p"
  unfolding applyBillStatus_stages [OF assms] statusRows_def
  by (simp add: candidateSpendMonths_map assignRequired_keeps assignStatus_keeps)

text \<open>
  Claim C2, as stated, fails: the status is not shared by all rows of a payee. In the
  batch below the payee has a bill-candidate spend transaction in the latest month (the
  direct debit of February), but its card payment of the same month is not a candidate and
  is \<open>not_bill\<close>, not \<open>active\<close>.
\<close>

theorem applyBillStatus_status_counterexample:
  "payeeNormalized (mixedPayeeBatch ! 2) = payeeNormalized (mixedPayeeBatch ! 1)
   \<and> isBillCandidate (applyBillStatus mixedPayeeBatch ! 1)
   \<and> isSpend (applyBillStatus mixedPayeeBatch ! 1)
   \<and> monthKey (applyBillStatus mixedPayeeBatch ! 1) = mostRecentSpendMonth mixedPayeeBatch
   \<and> billStatus (applyBillStatus mixedPayeeBatch ! 1) = ''active''
   \<and> billStatus (applyBillStatus mixedPayeeBatch ! 2) = ''not_bill''"
  by code_simp

text \<open>
  Claim C2, amended. On a batch with at least one spend transaction, with the latest month
  the most recent month key among the spend transactions, \<open>applyBillStatus\<close> assigns to
  each row: \<open>active\<close> iff the row is a bill candidate and its payee has a bill-candidate
  spend transaction in the latest month; \<open>inactive_candidate\<close> iff the row is a bill
  candidate and its payee has no candidate spend transaction in the latest month but has
  one in an earlier month; otherwise \<open>not_bill\<close>. In particular every non-candidate row
  is \<open>not_bill\<close>, and a batch with no spend transaction yields \<open>not_bill\<close> for every row.
\<close>

theorem applyBillStatus_status:
  "(\<not> (\<exists>r \<in> set rows. isSpend r) \<longrightarrow>
      (\<forall>r \<in> set (applyBillStatus rows). billStatus r = ''not_bill''))
   \<and> ((\<exists>r \<in> set rows. isSpend r) \<longrightarrow>
      (\<forall>i < length rows.
         billStatus (applyBillStatus rows ! i) =
           (if isBillCandidate (applyBillStatus rows ! i)
               \<and> mostRecentSpendMonth rows
                    \<in> candidateSpendMonths (applyBillStatus rows) (payeeNormalized (rows ! i))
            then ''active''
            else if isBillCandidate (applyBillStatus rows ! i)
               \<and> (\<exists>m \<in> candidateSpendMonths (applyBillStatus rows) (payeeNormalized (rows ! i)).
                     m < mostRecentSpendMonth rows)
            then ''inactive_candidate''
            else ''not_bill'')))"
proof (intro conjI impI allI)
  assume "\<not> (\<exists>r \<in> set rows. isSpend r)"
  then show "\<forall>r \<in> set (applyBillStatus rows). billStatus r = ''not_bill''"
    by (auto simp: applyBillStatus_no_spend)
next
  fix i
  assume sp: "\<exists>r \<in> set rows. isSpend r" and i: "i < length rows"
  let ?c = "candidateRows rows ! i"
  let ?p = "payeeNormalized (rows ! i)"
  let ?M = "candidateSpendMonths (candidateRows rows) ?p"
  have L: "latestMonthOf rows = mostRecentSpendMonth rows"
    using sp by (rule latestMonthOf_Max)
  have pc: "payeeNormalized ?c = ?p"
    using i by (simp add: candidateRows_nth markCandidate_keeps)
  have out: "applyBillStatus rows ! i =
      assignRequired (fold (latestStep (latestMonthOf rows)) (activeSpendOf rows) Map.empty)
                     (fold allStep (activeSpendOf rows) Map.empty)
        (assignStatus (presentLatestOf rows) (seenBeforeOf rows) ?c)"
    using i by (simp add: applyBillStatus_stages [OF sp] statusRows_length statusRows_nth)
  have cand: "isBillCandidate (applyBillStatus rows ! i) = isBillCandidate ?c"
    by (simp add: out assignRequired_keeps assignStatus_keeps)
  have st: "billStatus (applyBillStatus rows ! i) =
      billStatus (assignStatus (presentLatestOf rows) (seenBeforeOf rows) ?c)"
    by (simp add: out assignRequired_keeps)
  have ne: "(\<exists>m \<in> ?M. m \<noteq> mostRecentSpendMonth rows) \<longleftrightarrow> (\<exists>m \<in> ?M. m < mostRecentSpendMonth rows)"
    using candidateSpendMonths_le [OF sp] by (metis order_le_less less_irrefl)
  have "billStatus (assignStatus (presentLatestOf rows) (seenBeforeOf rows) ?c) =
      (if isBillCandidate ?c \<and> mostRecentSpendMonth rows \<in> ?M then ''active''
       else if isBillCandidate ?c \<and> (\<exists>m \<in> ?M. m < mostRecentSpendMonth rows)
       then ''inactive_candidate'' else ''not_bill'')"
    unfolding assignStatus_def Let_def mem_presentLatestOf mem_seenBeforeOf pc L ne
    by simp
  then show "billStatus (applyBillStatus rows ! i) =
           (if isBillCandidate (applyBillStatus rows ! i)
               \<and> mostRecentSpendMonth rows
                    \<in> candidateSpendMonths (applyBillStatus rows) (payeeNormalized (rows ! i))
            then ''active''
            else if isBillCandidate (applyBillStatus rows ! i)
               \<and> (\<exists>m \<in> candidateSpendMonths (applyBillStatus rows) (payeeNormalized (rows ! i)).
                     m < mostRecentSpendMonth rows)
            then ''inactive_candidate''
            else ''not_bill'')"
    unfolding st cand candidateSpendMonths_out [OF sp] .
qed

theorem applyBillStatus_status_witness:
  "(\<exists>r \<in> set mixedPayeeBatch. isSpend r) \<and> 1 < length mixedPayeeBatch
   \<and> isBillCandidate (applyBillStatus mixedPayeeBatch ! 1)
   \<and> mostRecentSpendMonth mixedPayeeBatch
        \<in> candidateSpendMonths (applyBillStatus mixedPayeeBatch)
             (payeeNormalized (mixedPayeeBatch ! 1))
   \<and> billStatus (applyBillStatus mixedPayeeBatch ! 1) = ''active''
   \<and> \<not> (\<exists>r \<in> set [blankRow]. isSpend r)
   \<and> billStatus (applyBillStatus [blankRow] ! 0) = ''not_bill''"
proof -
  have sp: "\<exists>r \<in> set mixedPayeeBatch. isSpend r" by code_simp
  have l1: "1 < length mixedPayeeBatch" by code_simp
  have c1: "isBillCandidate (applyBillStatus mixedPayeeBatch ! 1)" by code_simp
  have m1: "mostRecentSpendMonth mixedPayeeBatch
        \<in> candidateSpendMonths (applyBillStatus mixedPayeeBatch)
             (payeeNormalized (mixedPayeeBatch ! 1))" by code_simp
  have ns: "\<not> (\<exists>r \<in> set [blankRow]. isSpend r)" by code_simp
  from applyBillStatus_status [of mixedPayeeBatch] sp l1 c1 m1
  have a: "billStatus (applyBillStatus mixedPayeeBatch ! 1) = ''active''" by simp
  have "applyBillStatus [blankRow] ! 0 \<in> set (applyBillStatus [blankRow])"
    by (simp add: applyBillStatus_length)
  with applyBillStatus_status [of "[blankRow]"] ns
  have b: "billStatus (applyBillStatus [blankRow] ! 0) = ''not_bill''" by blast
  from sp l1 c1 m1 a ns b show ?thesis by blast
qed


lemma latestStep_apply:
  "latestStep L x m p =
     (if monthKey x = L \<and> payeeNormalized x = p
      then Some ((case m p of None \<Rightarrow> 0 | Some v \<Rightarrow> v) + amountAbs x)
      else m p)"
  by (auto simp: latestStep_def)

lemma fold_latestStep:
  "fold (latestStep L) xs m p =
     (if filter (\<lambda>r. payeeNormalized r = p \<and> monthKey r = L) xs = [] then m p
      else Some ((case m p of None \<Rightarrow> 0 | Some v \<Rightarrow> v)
                 + sum_list (map amountAbs (filter (\<lambda>r. payeeNormalized r = p \<and> monthKey r = L) xs))))"
proof (induction xs arbitrary: m)
  case Nil
  then show ?case by simp
next
  case (Cons x xs)
  have step: "fold (latestStep L) (x # xs) m p =
     (if filter (\<lambda>r. payeeNormalized r = p \<and> monthKey r = L) xs = [] then latestStep L x m p
      else Some ((case latestStep L x m p of None \<Rightarrow> 0 | Some v \<Rightarrow> v)
                 + sum_list (map amountAbs (filter (\<lambda>r. payeeNormalized r = p \<and> monthKey r = L) xs))))"
    using Cons.IH [of "latestStep L x m"] by simp
  have v: "latestStep L x m p =
     (if monthKey x = L \<and> payeeNormalized x = p
      then Some ((case m p of None \<Rightarrow> 0 | Some v \<Rightarrow> v) + amountAbs x)
      else m p)"
    by (rule latestStep_apply)
  show ?case unfolding step v
    by (cases "monthKey x = L \<and> payeeNormalized x = p") auto
qed

lemma assignStatus_active:
  "billStatus (assignStatus pl sb c) = ''active'' \<longleftrightarrow>
     isBillCandidate c \<and> payeeNormalized c \<in> set pl"
  by (simp add: assignStatus_def Let_def)

lemma activeSpendIn_map:
  assumes "\<And>r. payeeNormalized (g r) = payeeNormalized r"
    and "\<And>r. billStatus (g r) = billStatus r"
    and "\<And>r. isSpend (g r) = isSpend r"
    and "\<And>r. monthKey (g r) = monthKey r"
  shows "activeSpendIn (map g xs) p m = map g (activeSpendIn xs p m)"
  by (simp add: activeSpendIn_def filter_map o_def assms)

lemma activeSpendOf_filter:
  "filter (\<lambda>r. payeeNormalized r = p \<and> monthKey r = m) (activeSpendOf rows)
     = activeSpendIn (statusRows rows) p m"
  unfolding activeSpendOf_def activeSpendIn_def filter_filter
  by (rule filter_cong) auto

lemma active_has_latest_row:
  assumes i: "i < length rows"
    and act: "billStatus (statusRows rows ! i) = ''active''"
  shows "activeSpendIn (statusRows rows) (payeeNormalized (rows ! i)) (latestMonthOf rows) \<noteq> []"
proof -
  let ?p = "payeeNormalized (rows ! i)"
  have pc: "payeeNormalized (candidateRows rows ! i) = ?p"
    using i by (simp add: candidateRows_nth markCandidate_keeps)
  from act i have "?p \<in> set (presentLatestOf rows)"
    by (simp add: statusRows_nth assignStatus_active pc)
  then obtain c where c: "c \<in> set (candidateRows rows)" "payeeNormalized c = ?p"
      "isBillCandidate c" "isSpend c" "monthKey c = latestMonthOf rows"
    by (auto simp: presentLatestOf_def set_newSet)
  let ?r = "assignStatus (presentLatestOf rows) (seenBeforeOf rows) c"
  from c(1) have "?r \<in> set (statusRows rows)" by (simp add: statusRows_def)
  moreover from c \<open>?p \<in> set (presentLatestOf rows)\<close>
  have "payeeNormalized ?r = ?p \<and> billStatus ?r = ''active'' \<and> isSpend ?r
          \<and> monthKey ?r = latestMonthOf rows"
    by (simp add: assignStatus_keeps assignStatus_active)
  ultimately have "?r \<in> set (activeSpendIn (statusRows rows) ?p (latestMonthOf rows))"
    by (simp add: activeSpendIn_def)
  then show ?thesis by auto
qed

text \<open>
  Claim C1, as stated, fails: the required amount of an active row is not the sum of all of
  the payee's spend amounts in the latest month. In the batch below the payee spends
  30 by direct debit and 12 by card in the latest month; only the direct debit is an
  active bill row, and the required amount is 30, not 42.
\<close>

theorem applyBillStatus_required_counterexample:
  "length mixedPayeeBatch = 3
   \<and> payeeNormalized (mixedPayeeBatch ! 0) = ''gym''
   \<and> payeeNormalized (mixedPayeeBatch ! 1) = ''gym''
   \<and> payeeNormalized (mixedPayeeBatch ! 2) = ''gym''
   \<and> isSpend (mixedPayeeBatch ! 1) \<and> isSpend (mixedPayeeBatch ! 2)
   \<and> monthKey (mixedPayeeBatch ! 0) \<noteq> mostRecentSpendMonth mixedPayeeBatch
   \<and> monthKey (mixedPayeeBatch ! 1) = mostRecentSpendMonth mixedPayeeBatch
   \<and> monthKey (mixedPayeeBatch ! 2) = mostRecentSpendMonth mixedPayeeBatch
   \<and> amountAbs (mixedPayeeBatch ! 1) + amountAbs (mixedPayeeBatch ! 2) = 42
   \<and> billStatus (applyBillStatus mixedPayeeBatch ! 1) = ''active''
   \<and> requiredAmountExact (applyBillStatus mixedPayeeBatch ! 1) = 30"
  by code_simp

text \<open>
  Claim C1, amended. On a batch with at least one spend transaction, every row that
  \<open>applyBillStatus\<close> assigns the status \<open>active\<close> has \<open>requiredAmountExact\<close> equal to the
  exact sum of \<open>amountAbs\<close> over the payee's active spend rows (its bill-candidate spend
  rows) within the latest month among the batch's spend transactions, and the payee has
  at least one such row, so the fallback to a mean is never taken; every row whose status
  is not \<open>active\<close> gets \<open>requiredAmountExact = 0\<close>, and so does every row of a batch with
  no spend transaction.
\<close>

theorem applyBillStatus_required:
  "(\<not> (\<exists>r \<in> set rows. isSpend r) \<longrightarrow>
      (\<forall>r \<in> set (applyBillStatus rows). requiredAmountExact r = 0))
   \<and> ((\<exists>r \<in> set rows. isSpend r) \<longrightarrow>
      (\<forall>i < length rows.
         (billStatus (applyBillStatus rows ! i) = ''active'' \<longrightarrow>
            activeSpendIn (applyBillStatus rows) (payeeNormalized (rows ! i))
              (mostRecentSpendMonth rows) \<noteq> []
            \<and> requiredAmountExact (applyBillStatus rows ! i) =
                sum_list (map amountAbs
                  (activeSpendIn (applyBillStatus rows) (payeeNormalized (rows ! i))
                     (mostRecentSpendMonth rows))))
         \<and> (billStatus (applyBillStatus rows ! i) \<noteq> ''active'' \<longrightarrow>
              requiredAmountExact (applyBillStatus rows ! i) = 0)))"
proof (intro conjI impI allI)
  assume "\<not> (\<exists>r \<in> set rows. isSpend r)"
  then show "\<forall>r \<in> set (applyBillStatus rows). requiredAmountExact r = 0"
    by (auto simp: applyBillStatus_no_spend)
next
  fix i
  assume sp: "\<exists>r \<in> set rows. isSpend r" and i: "i < length rows"
    and act: "billStatus (applyBillStatus rows ! i) = ''active''"
  let ?p = "payeeNormalized (rows ! i)"
  let ?lt = "fold (latestStep (latestMonthOf rows)) (activeSpendOf rows) Map.empty"
  let ?al = "fold allStep (activeSpendOf rows) Map.empty"
  let ?ys = "activeSpendIn (statusRows rows) ?p (latestMonthOf rows)"
  have L: "latestMonthOf rows = mostRecentSpendMonth rows"
    using sp by (rule latestMonthOf_Max)
  have out: "applyBillStatus rows = map (assignRequired ?lt ?al) (statusRows rows)"
    by (rule applyBillStatus_stages [OF sp])
  have outi: "applyBillStatus rows ! i = assignRequired ?lt ?al (statusRows rows ! i)"
    using i by (simp add: out statusRows_length)
  have ps: "payeeNormalized (statusRows rows ! i) = ?p"
    using i by (simp add: statusRows_nth candidateRows_nth assignStatus_keeps markCandidate_keeps)
  from act have acts: "billStatus (statusRows rows ! i) = ''active''"
    by (simp add: outi assignRequired_keeps)
  have ne: "?ys \<noteq> []" using i acts by (rule active_has_latest_row)
  have ltp: "?lt ?p = Some (sum_list (map amountAbs ?ys))"
    using ne by (simp add: fold_latestStep activeSpendOf_filter)
  have ys_out: "activeSpendIn (applyBillStatus rows) ?p (latestMonthOf rows)
      = map (assignRequired ?lt ?al) ?ys"
    unfolding out by (rule activeSpendIn_map) (simp_all add: assignRequired_keeps)
  have req: "requiredAmountExact (applyBillStatus rows ! i) = sum_list (map amountAbs ?ys)"
    using acts by (simp add: outi assignRequired_def ps ltp)
  show "activeSpendIn (applyBillStatus rows) ?p (mostRecentSpendMonth rows) \<noteq> []"
    using ne ys_out L by simp
  show "requiredAmountExact (applyBillStatus rows ! i) =
      sum_list (map amountAbs (activeSpendIn (applyBillStatus rows) ?p (mostRecentSpendMonth rows)))"
    using req ys_out L by (simp add: o_def assignRequired_keeps)
next
  fix i
  assume sp: "\<exists>r \<in> set rows. isSpend r" and i: "i < length rows"
    and nact: "billStatus (applyBillStatus rows ! i) \<noteq> ''active''"
  let ?lt = "fold (latestStep (latestMonthOf rows)) (activeSpendOf rows) Map.empty"
  let ?al = "fold allStep (activeSpendOf rows) Map.empty"
  have outi: "applyBillStatus rows ! i = assignRequired ?lt ?al (statusRows rows ! i)"
    using i by (simp add: applyBillStatus_stages [OF sp] statusRows_length)
  from nact have "billStatus (statusRows rows ! i) \<noteq> ''active''"
    by (simp add: outi assignRequired_keeps)
  then show "requiredAmountExact (applyBillStatus rows ! i) = 0"
    by (simp add: outi assignRequired_def)
qed

theorem applyBillStatus_required_witness:
  "(\<exists>r \<in> set mixedPayeeBatch. isSpend r) \<and> 1 < length mixedPayeeBatch
   \<and> 2 < length mixedPayeeBatch
   \<and> billStatus (applyBillStatus mixedPayeeBatch ! 1) = ''active''
   \<and> map amountAbs (activeSpendIn (applyBillStatus mixedPayeeBatch)
          (payeeNormalized (mixedPayeeBatch ! 1)) (mostRecentSpendMonth mixedPayeeBatch)) = [30]
   \<and> requiredAmountExact (applyBillStatus mixedPayeeBatch ! 1) = 30
   \<and> billStatus (applyBillStatus mixedPayeeBatch ! 2) \<noteq> ''active''
   \<and> requiredAmountExact (applyBillStatus mixedPayeeBatch ! 2) = 0
   \<and> \<not> (\<exists>r \<in> set [blankRow]. isSpend r)
   \<and> requiredAmountExact (applyBillStatus [blankRow] ! 0) = 0"
proof -
  have sp: "\<exists>r \<in> set mixedPayeeBatch. isSpend r" by code_simp
  have l1: "1 < length mixedPayeeBatch" by code_simp
  have l2: "2 < length mixedPayeeBatch" by code_simp
  have a1: "billStatus (applyBillStatus mixedPayeeBatch ! 1) = ''active''" by code_simp
  have am: "map amountAbs (activeSpendIn (applyBillStatus mixedPayeeBatch)
          (payeeNormalized (mixedPayeeBatch ! 1)) (mostRecentSpendMonth mixedPayeeBatch)) = [30]"
    by code_simp
  have n2: "billStatus (applyBillStatus mixedPayeeBatch ! 2) \<noteq> ''active''" by code_simp
  have ns: "\<not> (\<exists>r \<in> set [blankRow]. isSpend r)" by code_simp
  from applyBillStatus_required [of mixedPayeeBatch] sp l1 a1
  have "requiredAmountExact (applyBillStatus mixedPayeeBatch ! 1) =
      sum_list (map amountAbs (activeSpendIn (applyBillStatus mixedPayeeBatch)
          (payeeNormalized (mixedPayeeBatch ! 1)) (mostRecentSpendMonth mixedPayeeBatch)))"
    by blast
  then have r1: "requiredAmountExact (applyBillStatus mixedPayeeBatch ! 1) = 30"
    by (simp only: am) simp
  from applyBillStatus_required [of mixedPayeeBatch] sp l2 n2
  have r2: "requiredAmountExact (applyBillStatus mixedPayeeBatch ! 2) = 0" by blast
  have "applyBillStatus [blankRow] ! 0 \<in> set (applyBillStatus [blankRow])"
    by (simp add: applyBillStatus_length)
  with applyBillStatus_required [of "[blankRow]"] ns
  have r0: "requiredAmountExact (applyBillStatus [blankRow] ! 0) = 0" by blast
  from sp l1 l2 a1 am r1 n2 r2 ns r0 show ?thesis by blast
qed

section \<open>Variable summary of the latest month\<close>

lemma groupStep_keys:
  "fst ` set (groupStep t cg) = insert (categoryFinal t) (fst ` set cg)"
proof -
  have "map fst (groupStep t cg) =
      map fst cg @ (if map_of cg (categoryFinal t) = None then [categoryFinal t] else [])"
    by (auto simp: groupStep_def Let_def o_def split_def)
  then have "set (map fst (groupStep t cg)) =
      set (map fst cg @ (if map_of cg (categoryFinal t) = None then [categoryFinal t] else []))"
    by simp
  then show ?thesis
    by (auto simp: map_of_eq_None_iff split: if_splits)
qed

lemma groupStep_mem:
  assumes "(k, g) \<in> set (groupStep t cg)"
  shows "(k \<noteq> categoryFinal t \<and> (k, g) \<in> set cg)
       \<or> (k = categoryFinal t
           \<and> (\<exists>g0. ((k, g0) \<in> set cg \<or> (map_of cg k = None \<and> g0 = (0, 0)))
                    \<and> fst g = fst g0 + amountAbs t))"
proof -
  let ?c = "categoryFinal t"
  let ?f = "\<lambda>(k, g). if k = ?c then (k, (fst g + amountAbs t, snd g + 1)) else (k, g)"
  let ?cg = "if map_of cg ?c = None then cg @ [(?c, (0, 0))] else cg"
  have "groupStep t cg = map ?f ?cg" by (simp add: groupStep_def Let_def)
  with assms obtain k0 g0 where mem: "(k0, g0) \<in> set ?cg" and kg: "(k, g) = ?f (k0, g0)"
    by auto
  from mem have mem': "(k0, g0) \<in> set cg \<or> (map_of cg ?c = None \<and> k0 = ?c \<and> g0 = (0, 0))"
    by (auto split: if_splits)
  show ?thesis
  proof (cases "k0 = ?c")
    case True
    with kg have "k = ?c" "fst g = fst g0 + amountAbs t" by simp_all
    with mem' True show ?thesis by blast
  next
    case False
    with kg have "k = k0" "g = g0" by simp_all
    with mem' False show ?thesis by blast
  qed
qed

lemma totalsAgree_step:
  assumes "totalsAgree cg m"
  shows "totalsAgree (groupStep t cg) (monthStep t m)"
proof -
  let ?c = "categoryFinal t"
  from assms have a: "\<And>k g. (k, g) \<in> set cg \<Longrightarrow> m k = Some (fst g)"
    and d: "dom m \<subseteq> fst ` set cg"
    by (auto simp: totalsAgree_def)
  have none: "map_of cg ?c = None \<Longrightarrow> m ?c = None"
  proof -
    assume "map_of cg ?c = None"
    then have "?c \<notin> fst ` set cg" by (simp add: map_of_eq_None_iff)
    with d show "m ?c = None" by auto
  qed
  have 1: "\<And>k g. (k, g) \<in> set (groupStep t cg) \<Longrightarrow> monthStep t m k = Some (fst g)"
  proof -
    fix k g assume "(k, g) \<in> set (groupStep t cg)"
    from groupStep_mem [OF this] show "monthStep t m k = Some (fst g)"
    proof
      assume "k \<noteq> ?c \<and> (k, g) \<in> set cg"
      with a show ?thesis by (simp add: monthStep_def)
    next
      assume h: "k = ?c
           \<and> (\<exists>g0. ((k, g0) \<in> set cg \<or> (map_of cg k = None \<and> g0 = (0, 0)))
                    \<and> fst g = fst g0 + amountAbs t)"
      then obtain g0 where k: "k = ?c" and g: "fst g = fst g0 + amountAbs t"
        and mem: "(k, g0) \<in> set cg \<or> (map_of cg k = None \<and> g0 = (0, 0))" by blast
      from mem show ?thesis
      proof
        assume "(k, g0) \<in> set cg"
        with a have "m k = Some (fst g0)" by simp
        with k g show ?thesis by (simp add: monthStep_def)
      next
        assume n: "map_of cg k = None \<and> g0 = (0, 0)"
        with none k have "m ?c = None" by simp
        with n k g show ?thesis by (simp add: monthStep_def)
      qed
    qed
  qed
  have "dom (monthStep t m) = insert ?c (dom m)"
    by (auto simp: monthStep_def split: if_splits)
  with d have 2: "dom (monthStep t m) \<subseteq> fst ` set (groupStep t cg)"
    unfolding groupStep_keys by auto
  from 1 2 show ?thesis by (auto simp: totalsAgree_def)
qed

lemma totalsAgree_fold:
  "totalsAgree cg m \<Longrightarrow> totalsAgree (fold groupStep xs cg) (fold monthStep xs m)"
  by (induction xs arbitrary: cg m) (simp_all add: totalsAgree_step)

lemma totalsAgree_init: "totalsAgree [] Map.empty"
  by (simp add: totalsAgree_def)

lemma monthCount_single:
  assumes "\<forall>t \<in> set base. monthKey t = L"
  shows "max 1 (length (newSet (map monthKey base))) = 1"
proof -
  from assms have "set (map monthKey base) \<subseteq> {L}" by auto
  then have "card (set (map monthKey base)) \<le> card {L}" by (intro card_mono) simp_all
  then show ?thesis by (simp add: length_newSet)
qed

text \<open>
  Claim C10. For every transaction list, every category in the output of
  \<open>buildVariableSummary\<close> with the timeframe \<open>this_month\<close> has \<open>avgMonthly\<close> equal to
  \<open>thisMonthActual\<close>: the filtered rows all lie in the latest month, so the distinct-month
  divisor is 1, and the category's total over the filtered rows is its latest-month total,
  both rounded the same way.
\<close>

theorem buildVariableSummary_this_month:
  "\<forall>v \<in> set (buildVariableSummary txs this_month). avgMonthly v = thisMonthActual v"
proof
  fix v assume v: "v \<in> set (buildVariableSummary txs this_month)"
  let ?base0 = "filter (\<lambda>t. isSpend t \<and> billStatus t \<noteq> ''active'' \<and> \<not> isInternalTransfer t) txs"
  let ?L = "last (sort (newSet (map monthKey ?base0)))"
  let ?base = "filter (\<lambda>t. monthKey t = ?L) ?base0"
  let ?cg = "fold groupStep ?base []"
  let ?m = "fold monthStep (filter (\<lambda>t. monthKey t = ?L) ?base) Map.empty"
  have mc: "max 1 (length (newSet (map monthKey ?base))) = 1"
    by (rule monthCount_single [of "?base" "?L"]) simp
  have ff: "filter (\<lambda>t. monthKey t = ?L) ?base = ?base" by simp
  have agree: "totalsAgree ?cg ?m"
    unfolding ff by (rule totalsAgree_fold [OF totalsAgree_init])
  from v obtain cat stats where cs: "(cat, stats) \<in> set ?cg"
    and av: "avgMonthly v = round2 (fst stats / of_nat (max 1 (length (newSet (map monthKey ?base)))))"
    and tm: "thisMonthActual v = round2 (case ?m cat of None \<Rightarrow> 0 | Some x \<Rightarrow> x)"
    unfolding buildVariableSummary_def Let_def
    by (auto split: if_splits list.splits simp del: length_0_conv filter_filter)
  from agree cs have "?m cat = Some (fst stats)" by (auto simp: totalsAgree_def)
  with av tm mc show "avgMonthly v = thisMonthActual v" by simp
qed

theorem buildVariableSummary_this_month_witness:
  "map category (buildVariableSummary plannerBatch this_month) = [''Groceries'', ''Transport'']
   \<and> avgMonthly (buildVariableSummary plannerBatch this_month ! 0)
       = thisMonthActual (buildVariableSummary plannerBatch this_month ! 0)
   \<and> avgMonthly (buildVariableSummary plannerBatch this_month ! 1)
       = thisMonthActual (buildVariableSummary plannerBatch this_month ! 1)
   \<and> avgMonthly (buildVariableSummary plannerBatch this_month ! 0) = 2001 / 100"
proof -
  let ?out = "buildVariableSummary plannerBatch this_month"
  have e: "map category ?out = [''Groceries'', ''Transport'']" by code_simp
  then have "length (map category ?out) = 2" by simp
  then have "length ?out = 2" by simp
  then have mem: "?out ! 0 \<in> set ?out" "?out ! 1 \<in> set ?out" by simp_all
  have a: "avgMonthly (?out ! 0) = 2001 / 100" by code_simp
  from buildVariableSummary_this_month [of plannerBatch] mem
  have "avgMonthly (?out ! 0) = thisMonthActual (?out ! 0)"
    "avgMonthly (?out ! 1) = thisMonthActual (?out ! 1)" by blast+
  with e a show ?thesis by blast
qed

section \<open>Parsing and hard failures\<close>













text \<open>
  The pipeline throws a \<open>TypeError\<close> on a file whose one row matches no rule and has the
  provider category \<open>constructor\<close>.
\<close>

lemma pipeline_inherited_category_throws:
  "runFullPipelineFromContent exampleEnv [inheritedKeyFile] Map.empty = Inl TypeError"
  by code_simp




section \<open>Fuzzy payee resolution\<close>

lemma bestStep_apply:
  "bestStep p k (bk, bs) =
     (if sequenceMatcherRatio p k > bs then (Some k, sequenceMatcherRatio p k) else (bk, bs))"
  by (simp add: bestStep_def Let_def)

lemma fold_bestStep:
  assumes "fold (bestStep p) ks (bk, bs) = (bk', bs')"
  shows "bs \<le> bs' \<and> (\<forall>k \<in> set ks. sequenceMatcherRatio p k \<le> bs')
         \<and> ((bk' = bk \<and> bs' = bs)
             \<or> (\<exists>k \<in> set ks. bk' = Some k \<and> sequenceMatcherRatio p k = bs' \<and> bs < bs'))"
  using assms
proof (induction ks arbitrary: bk bs)
  case Nil
  then show ?case by simp
next
  case (Cons k ks)
  have step: "fold (bestStep p) (k # ks) (bk, bs) = fold (bestStep p) ks (bestStep p k (bk, bs))"
    by simp
  show ?case
  proof (cases "sequenceMatcherRatio p k > bs")
    case True
    then have "bestStep p k (bk, bs) = (Some k, sequenceMatcherRatio p k)"
      by (simp only: bestStep_apply if_True)
    with Cons.prems step
    have "fold (bestStep p) ks (Some k, sequenceMatcherRatio p k) = (bk', bs')"
      by (simp only:)
    from Cons.IH [OF this] True show ?thesis by auto
  next
    case False
    then have "bestStep p k (bk, bs) = (bk, bs)"
      by (simp only: bestStep_apply if_False)
    with Cons.prems step have "fold (bestStep p) ks (bk, bs) = (bk', bs')"
      by (simp only:)
    from Cons.IH [OF this] False show ?thesis by auto
  qed
qed

lemma bestMatch_cases:
  assumes "bestMatch p ks = (bk, bs)"
  shows "(\<forall>k \<in> set ks. sequenceMatcherRatio p k \<le> bs)
         \<and> ((bk = None \<and> bs = 0)
             \<or> (\<exists>k \<in> set ks. bk = Some k \<and> sequenceMatcherRatio p k = bs \<and> 0 < bs))"
  using fold_bestStep [of p ks None 0 bk bs] assms by (auto simp: bestMatch_def)

lemma knownStep_keys:
  "set (map fst (knownStep r km)) =
     set (map fst km) \<union> (if confidenceScore r \<ge> 9 / 10 \<and> payeeNormalized r \<noteq> []
                          then {payeeNormalized r} else {})"
  by (auto simp: knownStep_def map_of_eq_None_iff image_iff)

lemma fold_knownStep_keys:
  "set (map fst (fold knownStep xs km)) =
     set (map fst km) \<union> {payeeNormalized r | r. r \<in> set xs \<and> confidenceScore r \<ge> 9 / 10
                                              \<and> payeeNormalized r \<noteq> []}"
proof (induction xs arbitrary: km)
  case Nil
  then show ?case by simp
next
  case (Cons x xs)
  have "set (map fst (fold knownStep (x # xs) km)) =
      set (map fst (knownStep x km)) \<union> {payeeNormalized r | r. r \<in> set xs \<and> confidenceScore r \<ge> 9 / 10
                                              \<and> payeeNormalized r \<noteq> []}"
    using Cons.IH [of "knownStep x km"] by simp
  then show ?case unfolding knownStep_keys by auto
qed

lemma knownStep_distinct:
  "distinct (map fst km) \<Longrightarrow> distinct (map fst (knownStep r km))"
  by (auto simp: knownStep_def map_of_eq_None_iff image_iff)

lemma fold_knownStep_distinct:
  "distinct (map fst km) \<Longrightarrow> distinct (map fst (fold knownStep xs km))"
  by (induction xs arbitrary: km) (simp_all add: knownStep_distinct)

lemma fold_knownStep_entries:
  assumes "\<forall>(k, e) \<in> set km. Q k e"
    and "\<forall>r \<in> set xs. confidenceScore r \<ge> 9 / 10 \<and> payeeNormalized r \<noteq> []
            \<longrightarrow> Q (payeeNormalized r) (categoryFinal r, categoryGroup r, isBillRule r)"
  shows "\<forall>(k, e) \<in> set (fold knownStep xs km). Q k e"
  using assms
proof (induction xs arbitrary: km)
  case Nil
  then show ?case by simp
next
  case (Cons x xs)
  have "\<forall>(k, e) \<in> set (knownStep x km). Q k e"
    using Cons.prems by (auto simp: knownStep_def)
  moreover have "\<forall>r \<in> set xs. confidenceScore r \<ge> 9 / 10 \<and> payeeNormalized r \<noteq> []
            \<longrightarrow> Q (payeeNormalized r) (categoryFinal r, categoryGroup r, isBillRule r)"
    using Cons.prems(2) by simp
  ultimately have "\<forall>(k, e) \<in> set (fold knownStep xs (knownStep x km)). Q k e"
    by (rule Cons.IH)
  then show ?case by simp
qed

lemma buildKnownMap_keys:
  "set (map fst (buildKnownMap rows1)) =
     {payeeNormalized r | r. r \<in> set rows1 \<and> confidenceScore r \<ge> 9 / 10
                             \<and> payeeNormalized r \<noteq> []}"
  unfolding buildKnownMap_def fold_knownStep_keys by simp

lemma buildKnownMap_lookup:
  assumes "k \<in> set (map fst (buildKnownMap rows1))"
  shows "\<exists>r \<in> set rows1. payeeNormalized r = k \<and> k \<noteq> [] \<and> confidenceScore r \<ge> 9 / 10
           \<and> map_of (buildKnownMap rows1) k = Some (categoryFinal r, categoryGroup r, isBillRule r)"
proof -
  let ?Q = "\<lambda>k e. \<exists>r \<in> set rows1. payeeNormalized r = k \<and> k \<noteq> [] \<and> confidenceScore r \<ge> 9 / 10
                 \<and> e = (categoryFinal r, categoryGroup r, isBillRule r)"
  have ent: "\<forall>(k, e) \<in> set (buildKnownMap rows1). ?Q k e"
    unfolding buildKnownMap_def
    by (rule fold_knownStep_entries) auto
  have dist: "distinct (map fst (buildKnownMap rows1))"
    unfolding buildKnownMap_def by (rule fold_knownStep_distinct) simp
  from assms obtain e where e: "(k, e) \<in> set (buildKnownMap rows1)" by auto
  with dist have "map_of (buildKnownMap rows1) k = Some e" by simp
  moreover from ent e have "?Q k e" by auto
  ultimately show ?thesis by auto
qed

lemma ratio_empty_key: "p \<noteq> [] \<Longrightarrow> sequenceMatcherRatio p [] = 0"
  by (simp add: sequenceMatcherRatio_def)

lemma categorizeRow_reason:
  "categorizeRow env cfg r = Inr r' \<Longrightarrow> confidenceReason r' \<noteq> ''fuzzy_payee''"
  by (auto simp: categorizeRow_def Let_def split: option.splits prod.splits FallbackLookup.splits)

lemma pass1_length: "pass1 env cfg rows = Inr rows1 \<Longrightarrow> length rows1 = length rows"
  by (simp add: pass1_def mapResult_length)

lemma pass1_reason:
  assumes "pass1 env cfg rows = Inr rows1" and "r \<in> set rows1"
  shows "confidenceReason r \<noteq> ''fuzzy_payee''"
proof -
  from assms obtain x where "categorizeRow env cfg x = Inr r"
    unfolding pass1_def by (blast dest: mapResult_mem)
  then show ?thesis by (rule categorizeRow_reason)
qed

lemma fuzzyRow_changed:
  assumes "fuzzyRow km r \<noteq> r"
  shows "confidenceScore r < 7 / 10 \<and> payeeNormalized r \<noteq> []
         \<and> (\<exists>k s. bestMatch (payeeNormalized r) (map fst km) = (Some k, s)
                  \<and> 88 / 100 \<le> s)"
  using assms
  by (auto simp: fuzzyRow_def split: if_splits prod.splits option.splits)

lemma fuzzyRow_adopt:
  assumes "confidenceScore r < 7 / 10" "payeeNormalized r \<noteq> []"
    and "bestMatch (payeeNormalized r) (map fst km) = (Some k, s)"
    and "k \<noteq> []" "88 / 100 \<le> s" "map_of km k = Some (c, g, b)"
  shows "fuzzyRow km r =
     r\<lparr>categoryFinal := c, categoryGroup := g, isBillRule := b,
       confidenceScore := min (85 / 100) (max (7 / 10) s),
       confidenceReason := ''fuzzy_payee'', ruleIdApplied := ''fuzzy:'' @ k\<rparr>"
  using assms by (simp add: fuzzyRow_def)

lemma fuzzyRow_reason:
  assumes "confidenceReason (fuzzyRow km r) = ''fuzzy_payee''"
    and "confidenceReason r \<noteq> ''fuzzy_payee''"
  shows "7 / 10 \<le> confidenceScore (fuzzyRow km r) \<and> confidenceScore (fuzzyRow km r) \<le> 85 / 100"
  using assms
  by (auto simp: fuzzyRow_def split: if_splits prod.splits option.splits)

text \<open>The second and third loops of \<open>categorize\<close>, on the batch the first loop leaves.\<close>

lemma fuzzy_loops:
  assumes out: "out = (if buildKnownMap rows1 \<noteq> []
                       then map (fuzzyRow (buildKnownMap rows1)) rows1 else rows1)"
    and i: "i < length rows1"
    and nf: "\<forall>r \<in> set rows1. confidenceReason r \<noteq> ''fuzzy_payee''"
  shows "(out ! i \<noteq> rows1 ! i \<longrightarrow>
            confidenceScore (rows1 ! i) < 7 / 10
            \<and> payeeNormalized (rows1 ! i) \<noteq> []
            \<and> (\<exists>r \<in> set rows1. 9 / 10 \<le> confidenceScore r
                  \<and> 88 / 100 \<le> sequenceMatcherRatio
                        (payeeNormalized (rows1 ! i)) (payeeNormalized r)))
       \<and> (confidenceScore (rows1 ! i) < 7 / 10
            \<and> payeeNormalized (rows1 ! i) \<noteq> []
            \<and> (\<exists>r \<in> set rows1. 9 / 10 \<le> confidenceScore r
                  \<and> 88 / 100 \<le> sequenceMatcherRatio
                        (payeeNormalized (rows1 ! i)) (payeeNormalized r))
          \<longrightarrow> (\<exists>r \<in> set rows1. 9 / 10 \<le> confidenceScore r
                 \<and> (\<forall>r' \<in> set rows1. 9 / 10 \<le> confidenceScore r' \<longrightarrow>
                       sequenceMatcherRatio (payeeNormalized (rows1 ! i))
                           (payeeNormalized r')
                       \<le> sequenceMatcherRatio (payeeNormalized (rows1 ! i))
                           (payeeNormalized r))
                 \<and> out ! i =
                     (rows1 ! i)
                       \<lparr>categoryFinal := categoryFinal r, categoryGroup := categoryGroup r,
                        isBillRule := isBillRule r,
                        confidenceScore := min (85 / 100) (max (7 / 10)
                          (sequenceMatcherRatio (payeeNormalized (rows1 ! i))
                             (payeeNormalized r))),
                        confidenceReason := ''fuzzy_payee'',
                        ruleIdApplied := ''fuzzy:'' @ payeeNormalized r\<rparr>))
       \<and> (\<forall>r \<in> set out. confidenceReason r = ''fuzzy_payee'' \<longrightarrow>
            7 / 10 \<le> confidenceScore r \<and> confidenceScore r < 9 / 10)"
proof (intro conjI impI)
  let ?km = "buildKnownMap rows1"
  let ?r1 = "rows1 ! i"
  let ?p = "payeeNormalized ?r1"
  assume ch: "out ! i \<noteq> ?r1"
  then have ne: "?km \<noteq> []" by (auto simp: out)
  with ch i have "fuzzyRow ?km ?r1 \<noteq> ?r1" by (simp add: out)
  from fuzzyRow_changed [OF this] obtain k s where
    c: "confidenceScore ?r1 < 7 / 10" and pn: "?p \<noteq> []"
    and bm: "bestMatch ?p (map fst ?km) = (Some k, s)" and s: "88 / 100 \<le> s"
    by blast
  from bestMatch_cases [OF bm] have k: "k \<in> set (map fst ?km)" "sequenceMatcherRatio ?p k = s"
    by auto
  from buildKnownMap_lookup [OF k(1)] obtain r where
    "r \<in> set rows1" "payeeNormalized r = k" "9 / 10 \<le> confidenceScore r" by blast
  with k(2) s have "\<exists>r \<in> set rows1. 9 / 10 \<le> confidenceScore r
                  \<and> 88 / 100 \<le> sequenceMatcherRatio ?p (payeeNormalized r)" by auto
  with c pn show "confidenceScore ?r1 < 7 / 10" "?p \<noteq> []"
    "\<exists>r \<in> set rows1. 9 / 10 \<le> confidenceScore r
                  \<and> 88 / 100 \<le> sequenceMatcherRatio ?p (payeeNormalized r)"
    by simp_all
next
  let ?km = "buildKnownMap rows1"
  let ?r1 = "rows1 ! i"
  let ?p = "payeeNormalized ?r1"
  assume h: "confidenceScore ?r1 < 7 / 10 \<and> ?p \<noteq> []
            \<and> (\<exists>r \<in> set rows1. 9 / 10 \<le> confidenceScore r
                  \<and> 88 / 100 \<le> sequenceMatcherRatio ?p (payeeNormalized r))"
  then obtain r0 where c: "confidenceScore ?r1 < 7 / 10" and pn: "?p \<noteq> []"
    and r0: "r0 \<in> set rows1" "9 / 10 \<le> confidenceScore r0"
      "88 / 100 \<le> sequenceMatcherRatio ?p (payeeNormalized r0)" by blast
  have keys: "\<And>r'. r' \<in> set rows1 \<Longrightarrow> 9 / 10 \<le> confidenceScore r' \<Longrightarrow>
      payeeNormalized r' \<noteq> [] \<Longrightarrow> payeeNormalized r' \<in> set (map fst ?km)"
    unfolding buildKnownMap_keys by blast
  from r0(3) pn have "payeeNormalized r0 \<noteq> []"
    by (auto simp: ratio_empty_key)
  with r0 have k0: "payeeNormalized r0 \<in> set (map fst ?km)" by (intro keys)
  then have ne: "?km \<noteq> []" by auto
  obtain bk bs where bm: "bestMatch ?p (map fst ?km) = (bk, bs)" by (cases "bestMatch ?p (map fst ?km)")
  from bestMatch_cases [OF bm] have le: "\<forall>k \<in> set (map fst ?km). sequenceMatcherRatio ?p k \<le> bs"
    and alt: "(bk = None \<and> bs = 0)
       \<or> (\<exists>k \<in> set (map fst ?km). bk = Some k \<and> sequenceMatcherRatio ?p k = bs \<and> 0 < bs)"
    by blast+
  from le k0 r0(3) have bs: "88 / 100 \<le> bs" by force
  with alt obtain k where k: "k \<in> set (map fst ?km)" "bk = Some k" "sequenceMatcherRatio ?p k = bs"
    by auto
  from buildKnownMap_lookup [OF k(1)] obtain r where r: "r \<in> set rows1" "payeeNormalized r = k"
    "k \<noteq> []" "9 / 10 \<le> confidenceScore r"
    "map_of ?km k = Some (categoryFinal r, categoryGroup r, isBillRule r)" by blast
  have mx: "\<forall>r' \<in> set rows1. 9 / 10 \<le> confidenceScore r' \<longrightarrow>
      sequenceMatcherRatio ?p (payeeNormalized r') \<le> sequenceMatcherRatio ?p (payeeNormalized r)"
  proof (intro ballI impI)
    fix r' assume r': "r' \<in> set rows1" "9 / 10 \<le> confidenceScore r'"
    show "sequenceMatcherRatio ?p (payeeNormalized r') \<le> sequenceMatcherRatio ?p (payeeNormalized r)"
    proof (cases "payeeNormalized r' = []")
      case True
      with pn bs k(3) r(2) show ?thesis by (simp add: ratio_empty_key)
    next
      case False
      with r' have "payeeNormalized r' \<in> set (map fst ?km)" by (intro keys)
      with le k(3) r(2) show ?thesis by auto
    qed
  qed
  from bm k(2) have bm': "bestMatch ?p (map fst ?km) = (Some k, bs)" by simp
  have "fuzzyRow ?km ?r1 =
     ?r1\<lparr>categoryFinal := categoryFinal r, categoryGroup := categoryGroup r,
         isBillRule := isBillRule r,
         confidenceScore := min (85 / 100) (max (7 / 10) bs),
         confidenceReason := ''fuzzy_payee'', ruleIdApplied := ''fuzzy:'' @ k\<rparr>"
    using c pn bm' r(3) bs r(5) by (rule fuzzyRow_adopt)
  moreover have "out ! i = fuzzyRow ?km ?r1"
    using ne i by (simp add: out)
  ultimately have "out ! i =
     ?r1\<lparr>categoryFinal := categoryFinal r, categoryGroup := categoryGroup r,
         isBillRule := isBillRule r,
         confidenceScore := min (85 / 100) (max (7 / 10)
            (sequenceMatcherRatio ?p (payeeNormalized r))),
         confidenceReason := ''fuzzy_payee'', ruleIdApplied := ''fuzzy:'' @ payeeNormalized r\<rparr>"
    using k(3) r(2) by simp
  with r(1,4) mx show "\<exists>r \<in> set rows1. 9 / 10 \<le> confidenceScore r
                 \<and> (\<forall>r' \<in> set rows1. 9 / 10 \<le> confidenceScore r' \<longrightarrow>
                       sequenceMatcherRatio ?p (payeeNormalized r')
                       \<le> sequenceMatcherRatio ?p (payeeNormalized r))
                 \<and> out ! i =
                     ?r1\<lparr>categoryFinal := categoryFinal r, categoryGroup := categoryGroup r,
                        isBillRule := isBillRule r,
                        confidenceScore := min (85 / 100) (max (7 / 10)
                          (sequenceMatcherRatio ?p (payeeNormalized r))),
                        confidenceReason := ''fuzzy_payee'',
                        ruleIdApplied := ''fuzzy:'' @ payeeNormalized r\<rparr>"
    by blast
next
  show "\<forall>r \<in> set out. confidenceReason r = ''fuzzy_payee'' \<longrightarrow>
            7 / 10 \<le> confidenceScore r \<and> confidenceScore r < 9 / 10"
  proof (intro ballI impI)
    fix r assume r: "r \<in> set out" "confidenceReason r = ''fuzzy_payee''"
    let ?km = "buildKnownMap rows1"
    from r(1) obtain x where x: "x \<in> set rows1" "r = x \<or> r = fuzzyRow ?km x"
      by (auto simp: out split: if_splits)
    from nf x(1) have nr: "confidenceReason x \<noteq> ''fuzzy_payee''" by simp
    with r(2) x(2) have rf: "r = fuzzyRow ?km x" by auto
    with r(2) have "confidenceReason (fuzzyRow ?km x) = ''fuzzy_payee''"
      by simp
    from fuzzyRow_reason [OF this nr] rf
    show "7 / 10 \<le> confidenceScore r \<and> confidenceScore r < 9 / 10" by simp
  qed
qed

text \<open>
  Claim C4. Whenever \<open>categorize\<close> returns, its first loop has returned a batch
  \<open>rows1\<close> of the same length (the pass-1 rows), and in the fuzzy pass a row is modified
  only when its pass-1 confidence is below 0.70, its normalised payee key is non-empty,
  and some known row (a row with pass-1 confidence at least 0.90) has a key whose
  similarity to the row's key is at least 0.88. Every such row adopts the category, group
  and bill flag of a known row whose key has the best similarity score among the known
  rows; its confidence becomes that score clamped into [0.70, 0.85], its reason
  \<open>fuzzy_payee\<close>, and its applied-rule id \<open>fuzzy:\<close> followed by the matched key. In
  particular no row leaves \<open>categorize\<close> with reason \<open>fuzzy_payee\<close> and a confidence below
  0.70 or at least 0.90.
\<close>

theorem categorize_fuzzy_pass:
  assumes ret: "categorize env cfg rows = Inr out" and i: "i < length rows"
  shows "\<exists>rows1. pass1 env cfg rows = Inr rows1
       \<and> length rows1 = length rows \<and> length out = length rows
       \<and> (out ! i \<noteq> rows1 ! i \<longrightarrow>
            confidenceScore (rows1 ! i) < 7 / 10
            \<and> payeeNormalized (rows1 ! i) \<noteq> []
            \<and> (\<exists>r \<in> set rows1. 9 / 10 \<le> confidenceScore r
                  \<and> 88 / 100 \<le> sequenceMatcherRatio
                        (payeeNormalized (rows1 ! i)) (payeeNormalized r)))
       \<and> (confidenceScore (rows1 ! i) < 7 / 10
            \<and> payeeNormalized (rows1 ! i) \<noteq> []
            \<and> (\<exists>r \<in> set rows1. 9 / 10 \<le> confidenceScore r
                  \<and> 88 / 100 \<le> sequenceMatcherRatio
                        (payeeNormalized (rows1 ! i)) (payeeNormalized r))
          \<longrightarrow> (\<exists>r \<in> set rows1. 9 / 10 \<le> confidenceScore r
                 \<and> (\<forall>r' \<in> set rows1. 9 / 10 \<le> confidenceScore r' \<longrightarrow>
                       sequenceMatcherRatio (payeeNormalized (rows1 ! i))
                           (payeeNormalized r')
                       \<le> sequenceMatcherRatio (payeeNormalized (rows1 ! i))
                           (payeeNormalized r))
                 \<and> out ! i =
                     (rows1 ! i)
                       \<lparr>categoryFinal := categoryFinal r, categoryGroup := categoryGroup r,
                        isBillRule := isBillRule r,
                        confidenceScore := min (85 / 100) (max (7 / 10)
                          (sequenceMatcherRatio (payeeNormalized (rows1 ! i))
                             (payeeNormalized r))),
                        confidenceReason := ''fuzzy_payee'',
                        ruleIdApplied := ''fuzzy:'' @ payeeNormalized r\<rparr>))
       \<and> (\<forall>r \<in> set out. confidenceReason r = ''fuzzy_payee'' \<longrightarrow>
            7 / 10 \<le> confidenceScore r \<and> confidenceScore r < 9 / 10)"
proof -
  from ret obtain rows1 where p: "pass1 env cfg rows = Inr rows1"
    and out: "out = (if buildKnownMap rows1 \<noteq> []
                     then map (fuzzyRow (buildKnownMap rows1)) rows1 else rows1)"
    unfolding categorize_Inr by blast
  from pass1_length [OF p] have len: "length rows1 = length rows" .
  with out have len': "length out = length rows" by simp
  from i len have i': "i < length rows1" by simp
  have nf: "\<forall>r \<in> set rows1. confidenceReason r \<noteq> ''fuzzy_payee''"
    using pass1_reason [OF p] by blast
  from p len len' fuzzy_loops [OF out i' nf] show ?thesis by blast
qed

theorem categorize_fuzzy_pass_witness:
  "\<exists>out rows1.
     categorize exampleEnv exampleRules fuzzyBatch = Inr out
     \<and> pass1 exampleEnv exampleRules fuzzyBatch = Inr rows1
     \<and> 1 < length fuzzyBatch
     \<and> confidenceScore (rows1 ! 1) < 7 / 10
     \<and> payeeNormalized (rows1 ! 1) \<noteq> []
     \<and> 9 / 10 \<le> confidenceScore (rows1 ! 0)
     \<and> 88 / 100 \<le> sequenceMatcherRatio (payeeNormalized (rows1 ! 1))
                      (payeeNormalized (rows1 ! 0))
     \<and> confidenceReason (out ! 1) = ''fuzzy_payee''
     \<and> 7 / 10 \<le> confidenceScore (out ! 1)
     \<and> confidenceScore (out ! 1) < 9 / 10
     \<and> categoryFinal (out ! 1) = ''Groceries''
     \<and> ruleIdApplied (out ! 1) = ''fuzzy:tesco stores 1234''
     \<and> out ! 2 = rows1 ! 2"
proof -
  let ?p1 = "projr (pass1 exampleEnv exampleRules fuzzyBatch)"
  let ?out = "projr (categorize exampleEnv exampleRules fuzzyBatch)"
  have "\<not> isl (categorize exampleEnv exampleRules fuzzyBatch)" by code_simp
  then have ret: "categorize exampleEnv exampleRules fuzzyBatch = Inr ?out" by simp
  have "\<not> isl (pass1 exampleEnv exampleRules fuzzyBatch)" by code_simp
  then have pr: "pass1 exampleEnv exampleRules fuzzyBatch = Inr ?p1" by simp
  have l: "1 < length fuzzyBatch" by code_simp
  have c: "confidenceScore (?p1 ! 1) < 7 / 10" by code_simp
  have p: "payeeNormalized (?p1 ! 1) \<noteq> []" by code_simp
  have k: "9 / 10 \<le> confidenceScore (?p1 ! 0)" by code_simp
  have s: "88 / 100 \<le> sequenceMatcherRatio (payeeNormalized (?p1 ! 1)) (payeeNormalized (?p1 ! 0))"
    by code_simp
  have g: "categoryFinal (?out ! 1) = ''Groceries''" by code_simp
  have u: "ruleIdApplied (?out ! 1) = ''fuzzy:tesco stores 1234''" by code_simp
  have n: "?out ! 2 = ?p1 ! 2" by code_simp
  have l0: "0 < length fuzzyBatch" by code_simp
  from categorize_fuzzy_pass [OF ret l] pr
  have th: "length ?p1 = length fuzzyBatch \<and> length ?out = length fuzzyBatch
       \<and> (?out ! 1 \<noteq> ?p1 ! 1 \<longrightarrow>
            confidenceScore (?p1 ! 1) < 7 / 10
            \<and> payeeNormalized (?p1 ! 1) \<noteq> []
            \<and> (\<exists>r \<in> set ?p1. 9 / 10 \<le> confidenceScore r
                  \<and> 88 / 100 \<le> sequenceMatcherRatio
                        (payeeNormalized (?p1 ! 1)) (payeeNormalized r)))
       \<and> (confidenceScore (?p1 ! 1) < 7 / 10
            \<and> payeeNormalized (?p1 ! 1) \<noteq> []
            \<and> (\<exists>r \<in> set ?p1. 9 / 10 \<le> confidenceScore r
                  \<and> 88 / 100 \<le> sequenceMatcherRatio
                        (payeeNormalized (?p1 ! 1)) (payeeNormalized r))
          \<longrightarrow> (\<exists>r \<in> set ?p1. 9 / 10 \<le> confidenceScore r
                 \<and> (\<forall>r' \<in> set ?p1. 9 / 10 \<le> confidenceScore r' \<longrightarrow>
                       sequenceMatcherRatio (payeeNormalized (?p1 ! 1))
                           (payeeNormalized r')
                       \<le> sequenceMatcherRatio (payeeNormalized (?p1 ! 1))
                           (payeeNormalized r))
                 \<and> ?out ! 1 =
                     (?p1 ! 1)
                       \<lparr>categoryFinal := categoryFinal r, categoryGroup := categoryGroup r,
                        isBillRule := isBillRule r,
                        confidenceScore := min (85 / 100) (max (7 / 10)
                          (sequenceMatcherRatio (payeeNormalized (?p1 ! 1))
                             (payeeNormalized r))),
                        confidenceReason := ''fuzzy_payee'',
                        ruleIdApplied := ''fuzzy:'' @ payeeNormalized r\<rparr>))
       \<and> (\<forall>r \<in> set ?out. confidenceReason r = ''fuzzy_payee'' \<longrightarrow>
            7 / 10 \<le> confidenceScore r \<and> confidenceScore r < 9 / 10)"
    by (elim exE conjE) simp
  from th l0 have "0 < length ?p1" by simp
  then have m0: "?p1 ! 0 \<in> set ?p1" by (rule nth_mem)
  from th l have "1 < length ?out" by simp
  then have m1: "?out ! 1 \<in> set ?out" by (rule nth_mem)
  have ex: "\<exists>r \<in> set ?p1. 9 / 10 \<le> confidenceScore r
      \<and> 88 / 100 \<le> sequenceMatcherRatio (payeeNormalized (?p1 ! 1)) (payeeNormalized r)"
    using m0 k s by (intro bexI [of _ "?p1 ! 0"] conjI)
  from th [THEN conjunct2, THEN conjunct2, THEN conjunct2, THEN conjunct1, rule_format,
           OF conjI [OF c conjI [OF p ex]]]
  have f: "confidenceReason (?out ! 1) = ''fuzzy_payee''"
    by (elim bexE conjE) simp
  from th [THEN conjunct2, THEN conjunct2, THEN conjunct2, THEN conjunct2, rule_format, OF m1 f]
  have b: "7 / 10 \<le> confidenceScore (?out ! 1) \<and> confidenceScore (?out ! 1) < 9 / 10" .
  from ret pr l c p k s f b g u n show ?thesis by blast
qed

end
